theory Spec2Isabelle
  imports Main "HOL-Library.AList"
begin

section \<open>Values shared by the three factories\<close>

text \<open>
  JSON documents as Python holds them: a dict is an association list in insertion
  order, read with \<open>map_of\<close> and written with \<open>AList.update\<close> (an existing key keeps its
  place, a new key goes to the end).
\<close>

datatype json =
    JNull
  | JBool bool
  | JInt int
  | JStr string
  | JList "json list"
  | JObj "(string \<times> json) list"

text \<open>The exceptions the modelled code can raise; a validation error carries its report.\<close>

datatype error =
    ObjectDoesNotExist
  | MultipleObjectsReturned
  | IntegrityError
  | ValidationError string
  | KeyError string
  | TypeError
  | ValueError

text \<open>Python's \<open>str\<close> on an integer primary key: the decimal numeral.\<close>

definition digit_char :: "nat \<Rightarrow> char" where
  "digit_char d = ''0123456789'' ! d"

fun digits :: "nat \<Rightarrow> string" where
  "digits n = (if n < 10 then [digit_char n] else digits (n div 10) @ [digit_char (n mod 10)])"

definition str_int :: "int \<Rightarrow> string" where
  "str_int i = (if i < 0 then CHR ''-'' # digits (nat (- i)) else digits (nat i))"

text \<open>
  The three factory classes of the repository. Each has a primary key; the two
  VCF-backed ones are scoped to an assembly.
\<close>

datatype factory_class = ClinvarFactory | GnomadFactory | GnomadConstraintFactory

record factory =
  pk :: int
  cls :: factory_class
  assembly :: string

section \<open>Schema export\<close>

text \<open>
  \<open>get_schema\<close> of each class. The pydantic schema of the infos or gene model is not part
  of the repository and is passed in as \<open>schema\<close>.
\<close>

definition get_schema :: "factory \<Rightarrow> json \<Rightarrow> json" where
  "get_schema self schema = (case cls self of
      ClinvarFactory \<Rightarrow> JObj [(str_int (pk self), JObj [(''variant_annotations'', schema)])]
    | GnomadFactory \<Rightarrow> JObj [(str_int (pk self), JObj [(''genes'', schema)])]
    | GnomadConstraintFactory \<Rightarrow> JObj [(str_int (pk self), JObj [(''genes'', schema)])])"

section \<open>The persistent store\<close>

text \<open>
  One list of rows per table, in insertion order. A foreign key to a row that the code
  reads through (\<open>variant.region\<close>, \<open>node.variant\<close>) is held as the row itself; the
  \<open>factory\<close> foreign key is held as the factory's primary key.
\<close>

record region =
  region_id :: nat
  region_assembly :: string
  seqid :: string
  region_factory :: int

record variant =
  variant_id :: nat
  variant_region :: region
  pos :: int
  ref :: string
  alt :: string

record variant_annotation =
  va_id :: nat
  va_factory :: int
  va_variant :: nat
  va_metadata :: json

record gene =
  gene_id :: nat
  gene_factory :: int
  gene_name :: string
  gene_symbol :: string
  gene_type :: string
  gene_metadata :: json

datatype building = BUILDING_PENDING | BUILDING_SUCCESS | BUILDING_FAILED

record node_row =
  row_id :: nat
  row_variant :: nat
  row_metadata :: json
  row_building :: building

text \<open>
  The database engine is chosen in the project's settings, which are not part of the
  repository. Django compiles a key lookup on a JSON field to a comparison that the
  engine carries out on the stored JSON value. Where the stored value has the JSON type
  of the right-hand side, the comparison is that of strings or of integers. Where it
  has another JSON type, each engine has an order of its own: that part is the
  engine's, for \<open>__in\<close> with a list of strings and for \<open>__lte\<close> and \<open>__gte\<close> with an
  integer.
\<close>

record engine =
  other_in :: "json \<Rightarrow> string list \<Rightarrow> bool"
  other_lte :: "json \<Rightarrow> int \<Rightarrow> bool"
  other_gte :: "json \<Rightarrow> int \<Rightarrow> bool"

text \<open>
  \<open>statements\<close> records each \<open>bulk_create\<close> call with the rows it inserted, so that the
  grouping of inserts into batches can be observed.
\<close>

record store =
  database :: engine
  regions :: "region list"
  variants :: "variant list"
  variant_annotations :: "variant_annotation list"
  genes :: "gene list"
  node_rows :: "node_row list"
  statements :: "gene list list"

text \<open>A call either raises, leaving the store as it was at that moment, or returns.\<close>

type_synonym outcome = "(error \<times> store) + store"

text \<open>
  \<open>Model.objects.get(**lookup)\<close>: the one matching row, \<open>DoesNotExist\<close> when there is
  none, \<open>MultipleObjectsReturned\<close> when there are several.
\<close>

definition objects_get :: "('r \<Rightarrow> bool) \<Rightarrow> 'r list \<Rightarrow> error + 'r" where
  "objects_get lookup rows = (case filter lookup rows of
      [] \<Rightarrow> Inl ObjectDoesNotExist
    | [r] \<Rightarrow> Inr r
    | _ \<Rightarrow> Inl MultipleObjectsReturned)"

text \<open>
  The primary key the store gives a new row, taken as one more than the largest in the
  table. A database sequence goes on after a delete where this starts again; only the
  gene table is ever deleted from, and nothing below speaks of the ids of its rows.
\<close>

definition new_id :: "nat list \<Rightarrow> nat" where
  "new_id ids = Suc (fold max ids 0)"

section \<open>Region discovery\<close>

text \<open>
  \<open>load_regions\<close> of \<open>ClinvarFactory\<close> and \<open>GnomadFactory\<close> (the two bodies are the same).
  \<open>contigs\<close> is what \<open>reader.get_contigs\<close> returns for the factory's file.
\<close>

definition region_lookup :: "string \<Rightarrow> string \<Rightarrow> region \<Rightarrow> bool" where
  "region_lookup a s r \<longleftrightarrow> region_assembly r = a \<and> seqid r = s"

fun load_regions :: "factory \<Rightarrow> string list \<Rightarrow> store \<Rightarrow> outcome" where
  "load_regions self [] st = Inr st"
| "load_regions self (region # contigs) st =
     (case objects_get (region_lookup (assembly self) region) (regions st) of
        Inr region_object \<Rightarrow> load_regions self contigs st
      | Inl ObjectDoesNotExist \<Rightarrow>
          load_regions self contigs
            (st\<lparr>regions := regions st @
               [\<lparr>region_id = new_id (map region_id (regions st)),
                 region_assembly = assembly self, seqid = region,
                 region_factory = pk self\<rparr>]\<rparr>)
      | Inl e \<Rightarrow> Inl (e, st))"

section \<open>Positional load of one region\<close>

text \<open>
  A normalised VCF record: what \<open>ClinvarVariantModel\<close> or \<open>GnomadVariantModel\<close> holds after
  validation, with \<open>infos\<close> standing for \<open>infos.dict()\<close>. The pydantic models are not part
  of the repository: the constructor call is the parameter \<open>variant_model\<close>, which raises
  a validation error or returns the normalised record.
\<close>

record normalized_variant =
  nv_pos :: int
  nv_ref :: string
  nv_alt :: string
  nv_infos :: json

definition variant_lookup :: "region \<Rightarrow> int \<Rightarrow> string \<Rightarrow> string \<Rightarrow> variant \<Rightarrow> bool" where
  "variant_lookup r p rf al v \<longleftrightarrow>
     region_id (variant_region v) = region_id r \<and> pos v = p \<and> ref v = rf \<and> alt v = al"

text \<open>\<open>Variant.objects.get_or_create(region=..., pos=..., ref=..., alt=...)\<close>.\<close>

definition variant_get_or_create ::
  "region \<Rightarrow> int \<Rightarrow> string \<Rightarrow> string \<Rightarrow> store \<Rightarrow> error + (variant \<times> store)" where
  "variant_get_or_create r p rf al st =
     (case objects_get (variant_lookup r p rf al) (variants st) of
        Inr v \<Rightarrow> Inr (v, st)
      | Inl ObjectDoesNotExist \<Rightarrow>
          (let v = \<lparr>variant_id = new_id (map variant_id (variants st)),
                    variant_region = r, pos = p, ref = rf, alt = al\<rparr>
           in Inr (v, st\<lparr>variants := variants st @ [v]\<rparr>))
      | Inl e \<Rightarrow> Inl e)"

text \<open>
  \<open>VariantAnnotation.objects.get_or_create(factory=self, variant=variant, metadata=...)\<close>.
  All three keyword arguments are lookup fields, so the row is looked up by factory,
  variant and payload together, and created when no row has all three. The declaration
  of \<open>VariantAnnotation\<close> is not part of the repository: \<open>unique_fv\<close> says whether the
  store enforces one row per (factory, variant). When it does, the insert of a second
  row raises \<open>IntegrityError\<close>, the repeated lookup fails again, and the error is raised.
\<close>

definition va_lookup :: "int \<Rightarrow> nat \<Rightarrow> json \<Rightarrow> variant_annotation \<Rightarrow> bool" where
  "va_lookup f v m a \<longleftrightarrow> va_factory a = f \<and> va_variant a = v \<and> va_metadata a = m"

definition va_key :: "int \<Rightarrow> nat \<Rightarrow> variant_annotation \<Rightarrow> bool" where
  "va_key f v a \<longleftrightarrow> va_factory a = f \<and> va_variant a = v"

definition va_get_or_create ::
  "bool \<Rightarrow> factory \<Rightarrow> variant \<Rightarrow> json \<Rightarrow> store \<Rightarrow> error + (variant_annotation \<times> store)" where
  "va_get_or_create unique_fv self v m st =
     (case objects_get (va_lookup (pk self) (variant_id v) m) (variant_annotations st) of
        Inr a \<Rightarrow> Inr (a, st)
      | Inl ObjectDoesNotExist \<Rightarrow>
          (if unique_fv \<and> list_ex (va_key (pk self) (variant_id v)) (variant_annotations st)
           then Inl IntegrityError
           else
             (let a = \<lparr>va_id = new_id (map va_id (variant_annotations st)),
                       va_factory = pk self, va_variant = variant_id v, va_metadata = m\<rparr>
              in Inr (a, st\<lparr>variant_annotations := variant_annotations st @ [a]\<rparr>)))
      | Inl e \<Rightarrow> Inl e)"

text \<open>
  The loop of \<open>load_variants_for_region\<close> over the records that \<open>reader.get_variants\<close>
  yields for the contig. Nothing in the loop catches an exception.
\<close>

fun load_variant_records ::
  "('v \<Rightarrow> error + normalized_variant) \<Rightarrow> bool \<Rightarrow> factory \<Rightarrow> region \<Rightarrow> 'v list \<Rightarrow> store
     \<Rightarrow> outcome" where
  "load_variant_records variant_model unique_fv self region_obj [] st = Inr st"
| "load_variant_records variant_model unique_fv self region_obj (vcf_variant # rest) st =
     (case variant_model vcf_variant of
        Inl e \<Rightarrow> Inl (e, st)
      | Inr clinvar_variant \<Rightarrow>
          (case variant_get_or_create region_obj (nv_pos clinvar_variant)
                  (nv_ref clinvar_variant) (nv_alt clinvar_variant) st of
             Inl e \<Rightarrow> Inl (e, st)
           | Inr (v, st1) \<Rightarrow>
               (case va_get_or_create unique_fv self v (nv_infos clinvar_variant) st1 of
                  Inl e \<Rightarrow> Inl (e, st1)
                | Inr (a, st2) \<Rightarrow>
                    load_variant_records variant_model unique_fv self region_obj rest st2)))"

definition load_variants_for_region ::
  "('v \<Rightarrow> error + normalized_variant) \<Rightarrow> bool \<Rightarrow> factory \<Rightarrow> string \<Rightarrow> 'v list \<Rightarrow> store
     \<Rightarrow> outcome" where
  "load_variants_for_region variant_model unique_fv self region records st =
     (case objects_get (region_lookup (assembly self) region) (regions st) of
        Inl e \<Rightarrow> Inl (e, st)
      | Inr region_obj \<Rightarrow>
          load_variant_records variant_model unique_fv self region_obj records st)"

section \<open>Node metadata\<close>

text \<open>
  A \<open>NodeVariantAnnotation\<close> object in the memory of the running task. Its \<open>metadata\<close>
  attribute refers to a dict object: the node holds the address, the memory holds the
  document, so two nodes can share one document. \<open>save\<close> writes the node's row, with
  the document by value, to the store.
\<close>

record node =
  node_id :: nat
  node_variant :: variant
  node_metadata :: nat
  node_building :: building

record memory =
  cells :: "nat \<Rightarrow> json"
  next_cell :: nat

definition alloc :: "json \<Rightarrow> memory \<Rightarrow> nat \<times> memory" where
  "alloc d mem =
     (next_cell mem, mem\<lparr>cells := (cells mem)(next_cell mem := d), next_cell := Suc (next_cell mem)\<rparr>)"

definition save_row :: "node_row \<Rightarrow> node_row list \<Rightarrow> node_row list" where
  "save_row r rows =
     (if list_ex (\<lambda>x. row_id x = row_id r) rows
      then map (\<lambda>x. if row_id x = row_id r then r else x) rows
      else rows @ [r])"

definition save :: "node \<Rightarrow> memory \<Rightarrow> store \<Rightarrow> store" where
  "save n mem st =
     st\<lparr>node_rows := save_row
        \<lparr>row_id = node_id n, row_variant = variant_id (node_variant n),
         row_metadata = cells mem (node_metadata n), row_building = node_building n\<rparr>
        (node_rows st)\<rparr>"

text \<open>
  The lookup both VCF-backed classes make:
  \<open>VariantAnnotation.objects.get(factory=self, variant=node.variant).metadata\<close>, with
  \<open>ObjectDoesNotExist\<close> caught and replaced by the empty dict.
\<close>

definition variant_annotation_of :: "factory \<Rightarrow> variant \<Rightarrow> store \<Rightarrow> error + json" where
  "variant_annotation_of self v st =
     (case objects_get (va_key (pk self) (variant_id v)) (variant_annotations st) of
        Inr a \<Rightarrow> Inr (va_metadata a)
      | Inl ObjectDoesNotExist \<Rightarrow> Inr (JObj [])
      | Inl e \<Rightarrow> Inl e)"

text \<open>
  The query of \<open>GnomadConstraintFactory\<close>:
  \<open>Gene.objects.filter(factory=self, metadata__chromosome__in=variant.region.aliases,
  metadata__start_position__lte=variant.pos + len(variant.ref),
  metadata__end_position__gte=variant.pos)\<close>.
  A key lookup on a document that lacks the key matches nothing. A chromosome that is
  a JSON string is looked for among the aliases, and a position that is a JSON integer
  is compared as an integer; a stored value of another JSON type is compared by the
  engine of the store. \<open>aliases\<close> gives the attribute \<open>region.aliases\<close>, whose
  declaration is not part of the repository. \<open>ref\<close> is taken to hold one character per
  base.
\<close>

definition json_key :: "string \<Rightarrow> json \<Rightarrow> json option" where
  "json_key k d = (case d of JObj kvs \<Rightarrow> map_of kvs k | _ \<Rightarrow> None)"

definition key_in :: "engine \<Rightarrow> json option \<Rightarrow> string list \<Rightarrow> bool" where
  "key_in E x values = (case x of
      None \<Rightarrow> False
    | Some (JStr c) \<Rightarrow> c \<in> set values
    | Some j \<Rightarrow> other_in E j values)"

definition key_lte :: "engine \<Rightarrow> json option \<Rightarrow> int \<Rightarrow> bool" where
  "key_lte E x n = (case x of
      None \<Rightarrow> False
    | Some (JInt a) \<Rightarrow> a \<le> n
    | Some j \<Rightarrow> other_lte E j n)"

definition key_gte :: "engine \<Rightarrow> json option \<Rightarrow> int \<Rightarrow> bool" where
  "key_gte E x n = (case x of
      None \<Rightarrow> False
    | Some (JInt a) \<Rightarrow> a \<ge> n
    | Some j \<Rightarrow> other_gte E j n)"

definition gene_filter ::
  "engine \<Rightarrow> (region \<Rightarrow> string list) \<Rightarrow> factory \<Rightarrow> variant \<Rightarrow> gene \<Rightarrow> bool" where
  "gene_filter E aliases self v g \<longleftrightarrow>
     gene_factory g = pk self
     \<and> key_in E (json_key ''chromosome'' (gene_metadata g)) (aliases (variant_region v))
     \<and> key_lte E (json_key ''start_position'' (gene_metadata g)) (pos v + int (length (ref v)))
     \<and> key_gte E (json_key ''end_position'' (gene_metadata g)) (pos v)"

definition genes_of :: "(region \<Rightarrow> string list) \<Rightarrow> factory \<Rightarrow> variant \<Rightarrow> store \<Rightarrow> json list" where
  "genes_of aliases self v st =
     map gene_metadata (filter (gene_filter (database st) aliases self v) (genes st))"

text \<open>
  The value each class puts under \<open>factories[str(self.pk)]\<close>; the same expression
  occurs in \<open>init_metadata\<close> and in \<open>merge_metadata\<close> of the class.
\<close>

definition contribution ::
  "(region \<Rightarrow> string list) \<Rightarrow> factory \<Rightarrow> variant \<Rightarrow> store \<Rightarrow> error + json" where
  "contribution aliases self v st = (case cls self of
      ClinvarFactory \<Rightarrow>
        (case variant_annotation_of self v st of
           Inl e \<Rightarrow> Inl e
         | Inr variant_annotation \<Rightarrow> Inr (JObj [(''variant_annotations'', JList [variant_annotation])]))
    | GnomadFactory \<Rightarrow>
        (case variant_annotation_of self v st of
           Inl e \<Rightarrow> Inl e
         | Inr variant_annotation \<Rightarrow> Inr (JObj [(''variant_annotations'', JList [variant_annotation])]))
    | GnomadConstraintFactory \<Rightarrow>
        Inr (JObj [(''genes'', JList (genes_of aliases self v st))]))"

text \<open>
  \<open>init_metadata\<close>: each node gets a new dict, is marked and saved. An exception ends the
  task; what it had saved stays in the store.
\<close>

fun init_metadata ::
  "(region \<Rightarrow> string list) \<Rightarrow> factory \<Rightarrow> node list \<Rightarrow> memory \<Rightarrow> store
     \<Rightarrow> (error \<times> store) + (node list \<times> memory \<times> store)" where
  "init_metadata aliases self [] mem st = Inr ([], mem, st)"
| "init_metadata aliases self (n # ns) mem st =
     (case contribution aliases self (node_variant n) st of
        Inl e \<Rightarrow> Inl (e, st)
      | Inr c \<Rightarrow>
          (let (a, mem1) = alloc (JObj [(''factories'', JObj [(str_int (pk self), c)])]) mem;
               n1 = n\<lparr>node_metadata := a, node_building := BUILDING_SUCCESS\<rparr>;
               st1 = save n1 mem1 st
           in (case init_metadata aliases self ns mem1 st1 of
                 Inl x \<Rightarrow> Inl x
               | Inr (ns1, mem2, st2) \<Rightarrow> Inr (n1 # ns1, mem2, st2))))"

text \<open>
  \<open>merge_metadata\<close>: \<open>metadata = parent.metadata\<close> binds the parent's dict object itself.
  The right-hand side of the assignment is evaluated first, then
  \<open>metadata["factories"]\<close> is read (\<open>KeyError\<close> when the key is missing, \<open>TypeError\<close> when
  the document is not a dict), then the key is stored in the inner dict (\<open>TypeError\<close>
  when it is not a dict). The node is then bound to the same object.
\<close>

definition merge_metadata ::
  "(region \<Rightarrow> string list) \<Rightarrow> factory \<Rightarrow> node \<Rightarrow> node \<Rightarrow> memory \<Rightarrow> store
     \<Rightarrow> (error \<times> store) + (node \<times> memory \<times> store)" where
  "merge_metadata aliases self n parent mem st =
     (let metadata = node_metadata parent in
      case contribution aliases self (node_variant n) st of
        Inl e \<Rightarrow> Inl (e, st)
      | Inr c \<Rightarrow>
          (case cells mem metadata of
             JObj doc \<Rightarrow>
               (case map_of doc ''factories'' of
                  None \<Rightarrow> Inl (KeyError ''factories'', st)
                | Some (JObj fs) \<Rightarrow>
                    (let mem1 = mem\<lparr>cells := (cells mem)(metadata :=
                                   JObj (AList.update ''factories''
                                     (JObj (AList.update (str_int (pk self)) c fs)) doc))\<rparr>;
                         n1 = n\<lparr>node_metadata := metadata, node_building := BUILDING_SUCCESS\<rparr>
                     in Inr (n1, mem1, save n1 mem1 st))
                | Some _ \<Rightarrow> Inl (TypeError, st))
           | _ \<Rightarrow> Inl (TypeError, st)))"

section \<open>Reading the gene-constraint table\<close>

text \<open>
  A row of \<open>csv.DictReader\<close>: column name to cell, a short line leaving \<open>None\<close> in the
  missing cells. The two pydantic models are not part of the repository and are the
  parameters \<open>attributes_model\<close> (standing for
  \<open>GnomadConstraintAttributesModel(**row).dict()\<close>) and \<open>gene_model\<close> (standing for
  \<open>GnomadConstraintGeneModel(**model_args)\<close>).
\<close>

type_synonym row = "(string \<times> string option) list"

record model_args =
  arg_symbol :: "string option"
  arg_name :: "string option"
  arg_gene_type :: "string option"
  arg_aliases :: "string option list"
  arg_attributes :: json

record gene_model =
  gm_name :: string
  gm_symbol :: string
  gm_gene_type :: string
  gm_attributes :: json

record models =
  attributes_model :: "row \<Rightarrow> error + json"
  gene_model :: "model_args \<Rightarrow> error + gene_model"

definition row_get :: "row \<Rightarrow> string \<Rightarrow> error + string option" where
  "row_get r k = (case map_of r k of None \<Rightarrow> Inl (KeyError k) | Some c \<Rightarrow> Inr c)"

definition py_str :: "string option \<Rightarrow> string" where
  "py_str c = (case c of None \<Rightarrow> ''None'' | Some s \<Rightarrow> s)"

text \<open>
  The dict literal \<open>model_args\<close> of \<open>gene_reader\<close>, its entries evaluated in order. It is
  built before the \<open>try\<close>, so an exception here leaves the generator.
\<close>

definition build_model_args :: "models \<Rightarrow> row \<Rightarrow> error + model_args" where
  "build_model_args M r =
     (case row_get r ''gene'' of
        Inl x \<Rightarrow> Inl x
      | Inr g \<Rightarrow>
     (case row_get r ''gene_type'' of
        Inl x \<Rightarrow> Inl x
      | Inr t \<Rightarrow>
     (case row_get r ''start_position'' of
        Inl x \<Rightarrow> Inl x
      | Inr s \<Rightarrow>
     (case row_get r ''end_position'' of
        Inl x \<Rightarrow> Inl x
      | Inr e \<Rightarrow>
     (case attributes_model M r of
        Inl x \<Rightarrow> Inl x
      | Inr attrs \<Rightarrow>
          Inr \<lparr>arg_symbol = g, arg_name = g, arg_gene_type = t,
               arg_aliases = [g, t, Some (py_str s @ ''-'' @ py_str e)],
               arg_attributes = attrs\<rparr>)))))"

text \<open>
  One turn of the loop of \<open>gene_reader\<close>: it raises, or yields the pair
  \<open>(gene, None)\<close>, here \<open>Inr gene\<close>, or the pair \<open>(None, error)\<close>, here \<open>Inl report\<close>.
  Only \<open>ValidationError\<close> is caught.
\<close>

definition gene_reader_row :: "models \<Rightarrow> row \<Rightarrow> error + (string + gene_model)" where
  "gene_reader_row M r =
     (case build_model_args M r of
        Inl e \<Rightarrow> Inl e
      | Inr args \<Rightarrow>
          (case gene_model M args of
             Inr g \<Rightarrow> Inr (Inr g)
           | Inl (ValidationError report) \<Rightarrow> Inr (Inl report)
           | Inl e \<Rightarrow> Inl e))"

text \<open>
  The generator \<open>get_genes\<close>: the rows not yet read and what it has passed to
  \<open>logger.error\<close>. \<open>next_gene\<close> resumes it up to its next \<open>yield\<close>: \<open>None\<close> is the end of
  the stream.
\<close>

record gen =
  pending :: "row list"
  logged :: "string list"

fun next_gene :: "models \<Rightarrow> row list \<Rightarrow> string list \<Rightarrow> error + (gene_model option \<times> gen)" where
  "next_gene M [] lg = Inr (None, \<lparr>pending = [], logged = lg\<rparr>)"
| "next_gene M (r # rs) lg =
     (case gene_reader_row M r of
        Inl e \<Rightarrow> Inl e
      | Inr (Inl report) \<Rightarrow> next_gene M rs (lg @ [report])
      | Inr (Inr g) \<Rightarrow> Inr (Some g, \<lparr>pending = rs, logged = lg\<rparr>))"

text \<open>\<open>list(islice(genes, n))\<close> for \<open>n \<ge> 0\<close>: at most \<open>n\<close> items, fewer at the end of the stream.\<close>

fun take_genes :: "models \<Rightarrow> nat \<Rightarrow> gen \<Rightarrow> error + (gene_model list \<times> gen)" where
  "take_genes M 0 g = Inr ([], g)"
| "take_genes M (Suc n) g =
     (case next_gene M (pending g) (logged g) of
        Inl e \<Rightarrow> Inl e
      | Inr (None, g1) \<Rightarrow> Inr ([], g1)
      | Inr (Some x, g1) \<Rightarrow>
          (case take_genes M n g1 of
             Inl e \<Rightarrow> Inl e
           | Inr (xs, g2) \<Rightarrow> Inr (x # xs, g2)))"

text \<open>
  \<open>islice\<close> refuses a stop that is negative or above \<open>sys.maxsize\<close> with \<open>ValueError\<close>;
  \<open>maxsize\<close> is that of a 64-bit CPython.
\<close>

definition maxsize :: int where
  "maxsize = 2 ^ 63 - 1"

definition islice :: "models \<Rightarrow> int \<Rightarrow> gen \<Rightarrow> error + (gene_model list \<times> gen)" where
  "islice M batch_size g =
     (if batch_size < 0 \<or> maxsize < batch_size then Inl ValueError
      else take_genes M (nat batch_size) g)"

text \<open>Draining \<open>get_genes\<close>: every gene it yields, and its log.\<close>

fun get_genes :: "models \<Rightarrow> row list \<Rightarrow> string list \<Rightarrow> error + (gene_model list \<times> string list)" where
  "get_genes M [] lg = Inr ([], lg)"
| "get_genes M (r # rs) lg =
     (case gene_reader_row M r of
        Inl e \<Rightarrow> Inl e
      | Inr (Inl report) \<Rightarrow> get_genes M rs (lg @ [report])
      | Inr (Inr g) \<Rightarrow>
          (case get_genes M rs lg of
             Inl e \<Rightarrow> Inl e
           | Inr (gs, lg1) \<Rightarrow> Inr (g # gs, lg1)))"

section \<open>Batch load of the gene table\<close>

text \<open>\<open>load_genes_by_batch\<close>: one \<open>bulk_create\<close> of the batch's rows.\<close>

fun gene_rows :: "factory \<Rightarrow> nat \<Rightarrow> gene_model list \<Rightarrow> gene list" where
  "gene_rows self i [] = []"
| "gene_rows self i (g # gs) =
     \<lparr>gene_id = i, gene_factory = pk self, gene_name = gm_name g, gene_symbol = gm_symbol g,
      gene_type = gm_gene_type g, gene_metadata = gm_attributes g\<rparr> # gene_rows self (Suc i) gs"

definition load_genes_by_batch :: "factory \<Rightarrow> gene_model list \<Rightarrow> store \<Rightarrow> store" where
  "load_genes_by_batch self batch st =
     (let rows = gene_rows self (new_id (map gene_id (genes st))) batch
      in st\<lparr>genes := genes st @ rows, statements := statements st @ [rows]\<rparr>)"

text \<open>
  The \<open>while True\<close> loop of \<open>load_genes\<close>. \<open>None\<close> stands for a loop that never leaves.
\<close>

partial_function (option) load_genes_loop ::
  "models \<Rightarrow> factory \<Rightarrow> int \<Rightarrow> gen \<Rightarrow> store \<Rightarrow> ((error \<times> store) + (gen \<times> store)) option" where
  "load_genes_loop M self batch_size g st =
     (case islice M batch_size g of
        Inl e \<Rightarrow> Some (Inl (e, st))
      | Inr (batch, g1) \<Rightarrow>
          if batch = [] then Some (Inr (g1, st))
          else load_genes_loop M self batch_size g1 (load_genes_by_batch self batch st))"

text \<open>
  \<open>load_genes\<close>: delete the factory's genes, then run the loop over a new generator.
  \<open>batch_size = None\<close> is a call without the argument.
\<close>

definition delete_genes :: "factory \<Rightarrow> store \<Rightarrow> store" where
  "delete_genes self st = st\<lparr>genes := filter (\<lambda>g. gene_factory g \<noteq> pk self) (genes st)\<rparr>"

definition load_genes ::
  "models \<Rightarrow> factory \<Rightarrow> int option \<Rightarrow> row list \<Rightarrow> store
     \<Rightarrow> ((error \<times> store) + (gen \<times> store)) option" where
  "load_genes M self batch_size rows st =
     load_genes_loop M self (case batch_size of None \<Rightarrow> 100 | Some b \<Rightarrow> b)
       \<lparr>pending = rows, logged = []\<rparr> (delete_genes self st)"

section \<open>Notions used to state the properties\<close>

text \<open>The store a call leaves behind, whether it returned or raised.\<close>

definition store_after :: "outcome \<Rightarrow> store" where
  "store_after out = (case out of Inl (e, st) \<Rightarrow> st | Inr st \<Rightarrow> st)"

text \<open>The identifying key of a region row.\<close>

definition region_key :: "region \<Rightarrow> string \<times> string" where
  "region_key r = (region_assembly r, seqid r)"

text \<open>
  \<open>new\<close> is a list of rows that \<open>load_regions\<close> may add to \<open>st\<close>: each is owned by the
  factory, is for one of the contigs, has a key no row of \<open>st\<close> has, and no two share a
  contig.
\<close>

definition new_regions :: "factory \<Rightarrow> string list \<Rightarrow> store \<Rightarrow> region list \<Rightarrow> bool" where
  "new_regions self contigs st new \<longleftrightarrow>
     (\<forall>r \<in> set new. region_assembly r = assembly self \<and> seqid r \<in> set contigs
         \<and> region_factory r = pk self
         \<and> filter (region_lookup (assembly self) (seqid r)) (regions st) = [])
     \<and> distinct (map seqid new)"

text \<open>The documents of the nodes a metadata call returns, in node order.\<close>

definition documents :: "(error \<times> store) + (node list \<times> memory \<times> store) \<Rightarrow> json list" where
  "documents out = (case out of
      Inl x \<Rightarrow> []
    | Inr (ns, mem, st) \<Rightarrow> map (\<lambda>n. cells mem (node_metadata n)) ns)"

section \<open>Reference inputs\<close>

definition clinvar_demo :: factory where
  "clinvar_demo = \<lparr>pk = 1, cls = ClinvarFactory, assembly = ''GRCh38''\<rparr>"

definition gnomad_demo :: factory where
  "gnomad_demo = \<lparr>pk = 2, cls = GnomadFactory, assembly = ''GRCh38''\<rparr>"

definition constraint_demo :: factory where
  "constraint_demo = \<lparr>pk = 3, cls = GnomadConstraintFactory, assembly = []\<rparr>"

text \<open>
  PostgreSQL, where a JSON field is a \<open>jsonb\<close> column: values of different JSON types
  are ordered object, array, boolean, number, string, null, from the greatest to the
  least, and are never equal.
\<close>

definition postgresql :: engine where
  "postgresql =
     \<lparr>other_in = (\<lambda>j values. False),
      other_lte = (\<lambda>j n. case j of JNull \<Rightarrow> True | JStr s \<Rightarrow> True | _ \<Rightarrow> False),
      other_gte = (\<lambda>j n. case j of JBool b \<Rightarrow> True | JList l \<Rightarrow> True | JObj d \<Rightarrow> True
                                  | _ \<Rightarrow> False)\<rparr>"

definition empty_store :: store where
  "empty_store = \<lparr>database = postgresql, regions = [], variants = [],
                   variant_annotations = [], genes = [], node_rows = [], statements = []\<rparr>"

definition region_1 :: region where
  "region_1 = \<lparr>region_id = 1, region_assembly = ''GRCh38'', seqid = ''1'', region_factory = 2\<rparr>"

definition store_1 :: store where
  "store_1 = empty_store\<lparr>regions := [region_1]\<rparr>"

definition variant_1 :: variant where
  "variant_1 = \<lparr>variant_id = 1, variant_region = region_1, pos = 100, ref = ''A'', alt = ''G''\<rparr>"

definition record_benign :: normalized_variant where
  "record_benign = \<lparr>nv_pos = 100, nv_ref = ''A'', nv_alt = ''G'',
                     nv_infos = JObj [(''CLNSIG'', JStr ''Benign'')]\<rparr>"

definition record_pathogenic :: normalized_variant where
  "record_pathogenic = \<lparr>nv_pos = 100, nv_ref = ''A'', nv_alt = ''G'',
                         nv_infos = JObj [(''CLNSIG'', JStr ''Pathogenic'')]\<rparr>"

definition empty_memory :: memory where
  "empty_memory = \<lparr>cells = (\<lambda>a. JNull), next_cell = 0\<rparr>"

definition node_1 :: node where
  "node_1 = \<lparr>node_id = 1, node_variant = variant_1, node_metadata = 0,
              node_building = BUILDING_PENDING\<rparr>"

definition no_aliases :: "region \<Rightarrow> string list" where
  "no_aliases r = []"

definition aliases_1 :: "region \<Rightarrow> string list" where
  "aliases_1 r = [''1'', ''chr1'']"

definition gene_100_200 :: gene where
  "gene_100_200 = \<lparr>gene_id = 1, gene_factory = 3, gene_name = ''G1'', gene_symbol = ''G1'',
     gene_type = ''protein_coding'',
     gene_metadata = JObj [(''chromosome'', JStr ''1''), (''start_position'', JInt 100),
                           (''end_position'', JInt 200)]\<rparr>"

definition store_genes :: store where
  "store_genes = empty_store\<lparr>genes := [gene_100_200]\<rparr>"

definition variant_150 :: variant where
  "variant_150 = \<lparr>variant_id = 2, variant_region = region_1, pos = 150, ref = ''A'', alt = ''G''\<rparr>"

definition variant_250 :: variant where
  "variant_250 = \<lparr>variant_id = 3, variant_region = region_1, pos = 250, ref = ''A'', alt = ''G''\<rparr>"

definition document_after ::
  "nat \<Rightarrow> (error \<times> store) + (node \<times> memory \<times> store) \<Rightarrow> json option" where
  "document_after a out = (case out of Inl x \<Rightarrow> None | Inr (n, mem, st) \<Rightarrow> Some (cells mem a))"

definition parent_1 :: node where
  "parent_1 = \<lparr>node_id = 2, node_variant = variant_1, node_metadata = 0,
                node_building = BUILDING_SUCCESS\<rparr>"

definition memory_1 :: memory where
  "memory_1 = \<lparr>cells = (\<lambda>a. if a = 0
                  then JObj [(''factories'',
                         JObj [(''2'', JObj [(''variant_annotations'', JList [JObj []])])])]
                  else JNull),
                next_cell = 1\<rparr>"

definition store_annotated :: store where
  "store_annotated = store_1\<lparr>variants := [variant_1],
     variant_annotations :=
       [\<lparr>va_id = 1, va_factory = 1, va_variant = 1,
         va_metadata = JObj [(''CLNSIG'', JStr ''Benign'')]\<rparr>]\<rparr>"

text \<open>What \<open>gene_reader\<close> makes of one row that does not make it raise.\<close>

definition accepted :: "models \<Rightarrow> row \<Rightarrow> gene_model option" where
  "accepted M r = (case gene_reader_row M r of Inr (Inr g) \<Rightarrow> Some g | _ \<Rightarrow> None)"

definition rejected :: "models \<Rightarrow> row \<Rightarrow> string option" where
  "rejected M r = (case gene_reader_row M r of Inr (Inl report) \<Rightarrow> Some report | _ \<Rightarrow> None)"

text \<open>A list cut into consecutive batches of \<open>n\<close> items, the last one possibly shorter.\<close>

function batches_of :: "nat \<Rightarrow> 'a list \<Rightarrow> 'a list list" where
  "batches_of n xs = (if n = 0 \<or> xs = [] then [] else take n xs # batches_of n (drop n xs))"
  by pat_completeness auto
termination
  by (relation "measure (\<lambda>(n, xs). length xs)") auto

text \<open>The store a run of \<open>load_genes\<close> leaves behind.\<close>

definition loaded_store :: "(error \<times> store) + (gen \<times> store) \<Rightarrow> store" where
  "loaded_store out = (case out of Inl (e, st) \<Rightarrow> st | Inr (g, st) \<Rightarrow> st)"

text \<open>The fields of a gene row that come from the gene model, and those of the model.\<close>

definition row_payload :: "gene \<Rightarrow> int \<times> string \<times> string \<times> string \<times> json" where
  "row_payload r = (gene_factory r, gene_name r, gene_symbol r, gene_type r, gene_metadata r)"

definition model_payload :: "factory \<Rightarrow> gene_model \<Rightarrow> int \<times> string \<times> string \<times> string \<times> json" where
  "model_payload self g = (pk self, gm_name g, gm_symbol g, gm_gene_type g, gm_attributes g)"

definition accept_all :: models where
  "accept_all = \<lparr>attributes_model = (\<lambda>r. Inr (JObj [])),
                  gene_model = (\<lambda>a. case arg_name a of
                      None \<Rightarrow> Inl (ValidationError ''name'')
                    | Some n \<Rightarrow> Inr \<lparr>gm_name = n, gm_symbol = n, gm_gene_type = py_str (arg_gene_type a),
                                   gm_attributes = arg_attributes a\<rparr>)\<rparr>"

definition row_of :: "string option \<Rightarrow> row" where
  "row_of g = [(''gene'', g), (''gene_type'', Some ''protein_coding''),
               (''start_position'', Some ''100''), (''end_position'', Some ''200'')]"

definition reject_benign :: "normalized_variant \<Rightarrow> error + normalized_variant" where
  "reject_benign v = (if nv_infos v = JObj [(''CLNSIG'', JStr ''Benign'')]
                      then Inl (ValidationError ''CLNSIG'') else Inr v)"

text \<open>
  A gene document whose chromosome, where it has one, is a string and whose start and
  end position, where it has them, are integers.
\<close>

definition well_typed :: "json \<Rightarrow> bool" where
  "well_typed m \<longleftrightarrow>
     (case json_key ''chromosome'' m of None \<Rightarrow> True | Some (JStr c) \<Rightarrow> True | Some j \<Rightarrow> False)
     \<and> (case json_key ''start_position'' m of None \<Rightarrow> True | Some (JInt a) \<Rightarrow> True
          | Some j \<Rightarrow> False)
     \<and> (case json_key ''end_position'' m of None \<Rightarrow> True | Some (JInt a) \<Rightarrow> True
          | Some j \<Rightarrow> False)"

definition gene_null_start :: gene where
  "gene_null_start = \<lparr>gene_id = 1, gene_factory = 3, gene_name = ''G2'', gene_symbol = ''G2'',
     gene_type = ''protein_coding'',
     gene_metadata = JObj [(''chromosome'', JStr ''1''), (''start_position'', JNull),
                           (''end_position'', JInt 1000)]\<rparr>"

definition store_null_start :: store where
  "store_null_start = empty_store\<lparr>genes := [gene_null_start]\<rparr>"

text \<open>The store that the load of the two records of one variant leaves.\<close>

definition store_two_rows :: store where
  "store_two_rows = store_1\<lparr>variants := [variant_1],
     variant_annotations :=
       [\<lparr>va_id = 1, va_factory = 1, va_variant = 1,
         va_metadata = JObj [(''CLNSIG'', JStr ''Benign'')]\<rparr>,
        \<lparr>va_id = 2, va_factory = 1, va_variant = 1,
         va_metadata = JObj [(''CLNSIG'', JStr ''Pathogenic'')]\<rparr>]\<rparr>"

section \<open>The positional pipeline\<close>

text \<open>
  The work units of the pipeline: the three tasks of \<open>core.tasks\<close> that the factories
  schedule. \<open>factory_run\<close> carries the name of the method to run and the \<open>region\<close>
  keyword argument when there is one.
\<close>

datatype task =
    factory_set_loading_started
  | factory_run string "string option"
  | factory_set_loading_success


text \<open>
  \<open>load_variants\<close>: one \<open>factory_run.delay\<close> per contig of the file, in order; the
  method returns when the last one has been sent.
\<close>

definition load_variants :: "string list \<Rightarrow> task list" where
  "load_variants contigs =
     map (\<lambda>region. factory_run ''load_variants_for_region'' (Some region)) contigs"

text \<open>
  Modelled from the spec: the lifecycle state of a source, the scheduler and the tasks
  of \<open>core.tasks\<close>, none of which is part of the sources at hand. The state is one of
  not-started, loading, loaded, failed. The stages of a chain run in order, each one
  starting when the one before has completed; a work unit sent with \<open>delay\<close> is
  independent and runs at any later moment; every work unit runs to completion once
  it starts. \<open>factory_set_loading_started\<close> moves the source to loading,
  \<open>factory_set_loading_success\<close> to loaded, and \<open>factory_run\<close> calls \<open>run\<close> on the
  factory. The pipeline state keeps the stages of the chain still to run, the work
  units sent and not yet run, and the work units that have completed; the effect of a
  work unit on the store is left to the sections above.
\<close>

datatype loading = NOT_STARTED | LOADING | LOADED | FAILED

record pipeline =
  loading_state :: loading
  chain_rest :: "task list"
  dispatched :: "task list"
  completed :: "task list"

text \<open>
  \<open>run\<close> of the two VCF-backed classes: the method whose name is \<open>function_name\<close>
  is called, and no other name does anything. Of the three methods only
  \<open>load_variants\<close> sends work units.
\<close>

definition run :: "string list \<Rightarrow> string \<Rightarrow> string option \<Rightarrow> pipeline \<Rightarrow> pipeline" where
  "run contigs function_name kwargs s =
     (if function_name = ''load_regions'' then s
      else if function_name = ''load_variants''
        then s\<lparr>dispatched := dispatched s @ load_variants contigs\<rparr>
      else if function_name = ''load_variants_for_region'' then s
      else s)"









section \<open>Facts about the store operations\<close>

lemma str_int_1: "str_int 1 = ''1''"
  by (simp add: str_int_def digit_char_def)

lemma str_int_2: "str_int 2 = ''2''"
  by (simp add: str_int_def digit_char_def)

lemma str_int_3: "str_int 3 = ''3''"
  by (simp add: str_int_def digit_char_def)

lemma objects_get_Inr_iff:
  "objects_get P rows = Inr r \<longleftrightarrow> filter P rows = [r]"
  by (auto simp: objects_get_def split: list.splits)

lemma objects_get_DoesNotExist_iff:
  "objects_get P rows = Inl ObjectDoesNotExist \<longleftrightarrow> filter P rows = []"
  by (auto simp: objects_get_def split: list.splits)

lemma objects_get_cases:
  obtains (found) r where "objects_get P rows = Inr r" "filter P rows = [r]"
  | (missing) "objects_get P rows = Inl ObjectDoesNotExist" "filter P rows = []"
  | (several) "objects_get P rows = Inl MultipleObjectsReturned"
proof (cases "filter P rows")
  case Nil
  then show ?thesis using missing by (simp add: objects_get_def)
next
  case (Cons r rs)
  then show ?thesis using found several by (cases rs) (simp_all add: objects_get_def)
qed

lemma load_regions_extends:
  "load_regions self contigs st = Inr st1 \<Longrightarrow>
     \<exists>new. st1 = st\<lparr>regions := regions st @ new\<rparr>
       \<and> new_regions self contigs st new
       \<and> (\<forall>c \<in> set contigs. \<exists>r. filter (region_lookup (assembly self) c) (regions st1) = [r])"
proof (induction contigs arbitrary: st)
  case Nil
  then show ?case by (intro exI[of _ "[]"]) (simp add: new_regions_def)
next
  case (Cons c cs)
  let ?P = "region_lookup (assembly self)"
  show ?case
  proof (cases rule: objects_get_cases[of "?P c" "regions st"])
    case (found r)
    with Cons.prems have run: "load_regions self cs st = Inr st1" by simp
    from Cons.IH[OF run] obtain new where
      st1: "st1 = st\<lparr>regions := regions st @ new\<rparr>"
      and new: "new_regions self cs st new"
      and one: "\<forall>c \<in> set cs. \<exists>r. filter (?P c) (regions st1) = [r]" by blast
    have "filter (?P c) new = []"
      using new found(2) by (auto simp: new_regions_def filter_empty_conv region_lookup_def)
    then have "filter (?P c) (regions st1) = [r]" using st1 found(2) by simp
    moreover have "new_regions self (c # cs) st new" using new by (auto simp: new_regions_def)
    ultimately show ?thesis using st1 one by auto
  next
    case missing
    define r0 where "r0 = \<lparr>region_id = new_id (map region_id (regions st)),
                 region_assembly = assembly self, seqid = c, region_factory = pk self\<rparr>"
    define st0 where "st0 = st\<lparr>regions := regions st @ [r0]\<rparr>"
    from missing Cons.prems have run: "load_regions self cs st0 = Inr st1"
      by (simp add: st0_def r0_def)
    from Cons.IH[OF run] obtain new where
      st1: "st1 = st0\<lparr>regions := regions st0 @ new\<rparr>"
      and new: "new_regions self cs st0 new"
      and one: "\<forall>c \<in> set cs. \<exists>r. filter (?P c) (regions st1) = [r]" by blast
    have r0: "?P c r0" by (simp add: r0_def region_lookup_def)
    have notc: "\<forall>r \<in> set new. seqid r \<noteq> c"
      using new r0 by (auto simp: new_regions_def st0_def)
    have "filter (?P c) new = []"
      using notc by (auto simp: filter_empty_conv region_lookup_def)
    then have c1: "filter (?P c) (regions st1) = [r0]"
      using st1 missing(2) r0 by (simp add: st0_def)
    have eq: "st1 = st\<lparr>regions := regions st @ (r0 # new)\<rparr>"
      using st1 by (simp add: st0_def)
    have "new_regions self (c # cs) st (r0 # new)"
      using new notc missing(2) unfolding new_regions_def
      by (auto simp: st0_def r0_def split: if_splits)
    with eq c1 one show ?thesis by (intro exI[of _ "r0 # new"]) auto
  next
    case several
    with Cons.prems show ?thesis by simp
  qed
qed

lemma load_regions_settled:
  "\<forall>c \<in> set contigs. \<exists>r. filter (region_lookup (assembly self) c) (regions st) = [r]
     \<Longrightarrow> load_regions self contigs st = Inr st"
  by (induction contigs) (auto simp: objects_get_def)

lemma load_regions_append:
  "load_regions self (pre @ post) st =
     (case load_regions self pre st of Inl x \<Rightarrow> Inl x | Inr s \<Rightarrow> load_regions self post s)"
proof (induction pre arbitrary: st)
  case Nil
  show ?case by simp
next
  case (Cons c cs)
  show ?case
    by (cases rule: objects_get_cases[of "region_lookup (assembly self) c" "regions st"])
       (simp_all add: Cons.IH)
qed

lemma load_regions_raises:
  "load_regions self contigs st = Inl (e, st1) \<Longrightarrow>
     \<exists>pre c post. contigs = pre @ c # post \<and> load_regions self pre st = Inr st1
        \<and> objects_get (region_lookup (assembly self) c) (regions st1) = Inl MultipleObjectsReturned
        \<and> e = MultipleObjectsReturned"
proof (induction contigs arbitrary: st)
  case Nil
  then show ?case by simp
next
  case (Cons c cs)
  let ?P = "region_lookup (assembly self)"
  show ?case
  proof (cases rule: objects_get_cases[of "?P c" "regions st"])
    case (found r)
    with Cons.prems have "load_regions self cs st = Inl (e, st1)" by simp
    from Cons.IH[OF this] obtain pre d post where
      "cs = pre @ d # post" "load_regions self pre st = Inr st1"
      "objects_get (?P d) (regions st1) = Inl MultipleObjectsReturned" "e = MultipleObjectsReturned"
      by blast
    with found show ?thesis by (intro exI[of _ "c # pre"] exI[of _ d] exI[of _ post]) simp
  next
    case missing
    define st0 where "st0 = st\<lparr>regions := regions st @
               [\<lparr>region_id = new_id (map region_id (regions st)),
                 region_assembly = assembly self, seqid = c,
                 region_factory = pk self\<rparr>]\<rparr>"
    from missing Cons.prems have "load_regions self cs st0 = Inl (e, st1)" by (simp add: st0_def)
    from Cons.IH[OF this] obtain pre d post where
      "cs = pre @ d # post" "load_regions self pre st0 = Inr st1"
      "objects_get (?P d) (regions st1) = Inl MultipleObjectsReturned" "e = MultipleObjectsReturned"
      by blast
    with missing show ?thesis
      by (intro exI[of _ "c # pre"] exI[of _ d] exI[of _ post]) (simp add: st0_def)
  next
    case several
    with Cons.prems show ?thesis by (intro exI[of _ "[]"] exI[of _ c] exI[of _ cs]) simp
  qed
qed

lemma load_regions_again:
  "load_regions self contigs (store_after (load_regions self contigs st))
     = (case load_regions self contigs st of
          Inl (e, st1) \<Rightarrow> Inl (e, st1) | Inr st1 \<Rightarrow> Inr st1)"
proof (cases "load_regions self contigs st")
  case (Inr st1)
  from load_regions_extends[OF Inr] have
    "\<forall>c \<in> set contigs. \<exists>r. filter (region_lookup (assembly self) c) (regions st1) = [r]"
    by blast
  from load_regions_settled[OF this] Inr show ?thesis by (simp add: store_after_def)
next
  case (Inl x)
  obtain e st1 where x: "x = (e, st1)" by (cases x)
  from load_regions_raises[OF Inl[unfolded x]] obtain pre c post where
    split: "contigs = pre @ c # post" and pre: "load_regions self pre st = Inr st1"
    and c: "objects_get (region_lookup (assembly self) c) (regions st1) = Inl MultipleObjectsReturned"
    and e: "e = MultipleObjectsReturned" by blast
  from load_regions_extends[OF pre] have
    "\<forall>c \<in> set pre. \<exists>r. filter (region_lookup (assembly self) c) (regions st1) = [r]"
    by blast
  from load_regions_settled[OF this] have "load_regions self pre st1 = Inr st1" .
  then have "load_regions self contigs st1 = Inl (e, st1)"
    using c e by (simp add: split load_regions_append)
  then show ?thesis using Inl x by (simp add: store_after_def)
qed

lemma load_regions_only_appends:
  "\<exists>new. store_after (load_regions self contigs st) = st\<lparr>regions := regions st @ new\<rparr>
      \<and> new_regions self contigs st new"
proof (cases "load_regions self contigs st")
  case (Inr st1)
  from load_regions_extends[OF Inr] show ?thesis using Inr by (auto simp: store_after_def)
next
  case (Inl x)
  obtain e st1 where x: "x = (e, st1)" by (cases x)
  from load_regions_raises[OF Inl[unfolded x]] obtain pre c post where
    split: "contigs = pre @ c # post" and pre: "load_regions self pre st = Inr st1" by blast
  from load_regions_extends[OF pre] obtain new where
    "st1 = st\<lparr>regions := regions st @ new\<rparr>" "new_regions self pre st new" by blast
  then show ?thesis using Inl x split by (auto simp: store_after_def new_regions_def)
qed

lemma new_regions_distinct:
  assumes "new_regions self contigs st new" "distinct (map region_key (regions st))"
  shows "distinct (map region_key (regions st @ new))"
proof -
  have a: "distinct (map region_key new)"
    using assms(1) unfolding new_regions_def
    by (simp add: distinct_map inj_on_def region_key_def) 
  have b: "region_key ` set (regions st) \<inter> region_key ` set new = {}"
    using assms(1) unfolding new_regions_def
    by (auto simp: region_key_def filter_empty_conv region_lookup_def)
  show ?thesis using a b assms(2) by simp
qed

lemma distinct_key_filter:
  "distinct (map f xs) \<Longrightarrow> length (filter (\<lambda>x. f x = k) xs) \<le> 1"
proof (induction xs)
  case Nil
  show ?case by simp
next
  case (Cons x xs)
  show ?case
  proof (cases "f x = k")
    case True
    from Cons.prems have "f x \<notin> f ` set xs" by simp
    with True have "\<forall>y \<in> set xs. f y \<noteq> k" by blast
    then have "filter (\<lambda>x. f x = k) xs = []" by (simp add: filter_empty_conv)
    with True show ?thesis by simp
  next
    case False
    with Cons show ?thesis by simp
  qed
qed

lemma load_regions_returns:
  assumes "distinct (map region_key (regions st))"
  shows "\<exists>st1. load_regions self contigs st = Inr st1"
proof (cases "load_regions self contigs st")
  case (Inr st1)
  then show ?thesis by blast
next
  case (Inl x)
  obtain e st1 where x: "x = (e, st1)" by (cases x)
  from load_regions_raises[OF Inl[unfolded x]] obtain pre c post where
    pre: "load_regions self pre st = Inr st1"
    and c: "objects_get (region_lookup (assembly self) c) (regions st1) = Inl MultipleObjectsReturned"
    by blast
  from load_regions_extends[OF pre] obtain new where
    "st1 = st\<lparr>regions := regions st @ new\<rparr>" "new_regions self pre st new" by blast
  with new_regions_distinct[OF _ assms] have d: "distinct (map region_key (regions st1))" by simp
  have "length (filter (region_lookup (assembly self) c) (regions st1)) \<le> 1"
  proof -
    have "region_lookup (assembly self) c = (\<lambda>r. region_key r = (assembly self, c))"
      by (rule ext) (simp add: region_key_def region_lookup_def)
    then show ?thesis using distinct_key_filter[OF d, of "(assembly self, c)"] by simp
  qed
  with c show ?thesis by (auto simp: objects_get_def split: list.splits)
qed

section \<open>Region discovery is idempotent\<close>

text \<open>
  C9. Running \<open>load_regions\<close> a second time, on the store the first run left and with the
  same contigs, ends as the first run did and leaves that store as it is. The first run
  only appends rows: each new row is owned by the running factory and has a key that no
  earlier row has, so the rows that were there, their owning factory included, are not
  changed. When the keys of the store are distinct, the run returns and the keys are
  still distinct.
\<close>

theorem load_regions_idempotent:
  "load_regions self contigs (store_after (load_regions self contigs st))
     = load_regions self contigs st
   \<and> (\<exists>new. store_after (load_regions self contigs st) = st\<lparr>regions := regions st @ new\<rparr>
         \<and> (\<forall>r \<in> set new. region_factory r = pk self
               \<and> region_key r \<notin> region_key ` set (regions st)))
   \<and> (distinct (map region_key (regions st)) \<longrightarrow>
         load_regions self contigs st = Inr (store_after (load_regions self contigs st))
         \<and> distinct (map region_key (regions (store_after (load_regions self contigs st)))))"
proof (intro conjI impI)
  show "load_regions self contigs (store_after (load_regions self contigs st))
     = load_regions self contigs st"
    by (simp add: load_regions_again split: sum.splits)
next
  obtain new where new: "store_after (load_regions self contigs st) = st\<lparr>regions := regions st @ new\<rparr>"
    "new_regions self contigs st new"
    using load_regions_only_appends by blast
  have "\<forall>r \<in> set new. region_factory r = pk self
               \<and> region_key r \<notin> region_key ` set (regions st)"
  proof
    fix r
    assume "r \<in> set new"
    with new(2) have a: "region_assembly r = assembly self" "region_factory r = pk self"
      "filter (region_lookup (assembly self) (seqid r)) (regions st) = []"
      by (auto simp: new_regions_def)
    from a(3) have "\<forall>x \<in> set (regions st). \<not> region_lookup (assembly self) (seqid r) x"
      by (simp add: filter_empty_conv)
    with a(1) have "\<forall>x \<in> set (regions st). region_key x \<noteq> region_key r"
      by (auto simp: region_lookup_def region_key_def)
    then have "region_key r \<notin> region_key ` set (regions st)"
      by force
    with a(2) show "region_factory r = pk self
               \<and> region_key r \<notin> region_key ` set (regions st)"
      by simp
  qed
  with new(1) show "\<exists>new. store_after (load_regions self contigs st) = st\<lparr>regions := regions st @ new\<rparr>
         \<and> (\<forall>r \<in> set new. region_factory r = pk self
               \<and> region_key r \<notin> region_key ` set (regions st))"
    by blast
next
  assume d: "distinct (map region_key (regions st))"
  from load_regions_returns[OF d] obtain st1 where "load_regions self contigs st = Inr st1"
    by blast
  then show "load_regions self contigs st = Inr (store_after (load_regions self contigs st))"
    by (simp add: store_after_def)
next
  assume d: "distinct (map region_key (regions st))"
  obtain new where new: "store_after (load_regions self contigs st) = st\<lparr>regions := regions st @ new\<rparr>"
    "new_regions self contigs st new"
    using load_regions_only_appends by blast
  from new_regions_distinct[OF new(2) d] new(1)
  show "distinct (map region_key (regions (store_after (load_regions self contigs st))))"
    by simp
qed

theorem load_regions_idempotent_witness:
  "distinct (map region_key (regions store_1))
   \<and> load_regions clinvar_demo [''1'', ''2''] store_1
       = Inr (store_after (load_regions clinvar_demo [''1'', ''2''] store_1))
   \<and> distinct (map region_key
         (regions (store_after (load_regions clinvar_demo [''1'', ''2''] store_1))))
   \<and> load_regions clinvar_demo [''1'', ''2'']
         (store_after (load_regions clinvar_demo [''1'', ''2''] store_1))
       = load_regions clinvar_demo [''1'', ''2''] store_1"
proof -
  have d: "distinct (map region_key (regions store_1))"
    by (simp add: store_1_def empty_store_def)
  with load_regions_idempotent[of clinvar_demo "[''1'', ''2'']" store_1] show ?thesis
    by blast
qed

section \<open>The annotation row of a repeated key\<close>

text \<open>
  C1. A region whose input holds two records for the same variant with different
  payloads, loaded by \<open>clinvar_demo\<close> into a store holding the region. The second record
  finds no row with its factory, variant and payload, so a second row is inserted for
  the same (factory, variant); where the store enforces one row per (factory, variant)
  the insert raises \<open>IntegrityError\<close> and the load ends there.
\<close>

theorem load_variants_for_region_second_row:
  "load_variants_for_region Inr False clinvar_demo ''1'' [record_benign, record_pathogenic] store_1
     = Inr (store_1\<lparr>variants := [variant_1],
              variant_annotations :=
                [\<lparr>va_id = 1, va_factory = 1, va_variant = 1,
                  va_metadata = JObj [(''CLNSIG'', JStr ''Benign'')]\<rparr>,
                 \<lparr>va_id = 2, va_factory = 1, va_variant = 1,
                  va_metadata = JObj [(''CLNSIG'', JStr ''Pathogenic'')]\<rparr>]\<rparr>)
   \<and> load_variants_for_region Inr True clinvar_demo ''1'' [record_benign, record_pathogenic] store_1
     = Inl (IntegrityError,
            store_1\<lparr>variants := [variant_1],
              variant_annotations :=
                [\<lparr>va_id = 1, va_factory = 1, va_variant = 1,
                  va_metadata = JObj [(''CLNSIG'', JStr ''Benign'')]\<rparr>]\<rparr>)"
  by (simp add: load_variants_for_region_def clinvar_demo_def store_1_def empty_store_def
        region_1_def variant_1_def record_benign_def record_pathogenic_def objects_get_def
        region_lookup_def variant_get_or_create_def variant_lookup_def va_get_or_create_def
        va_lookup_def va_key_def new_id_def Let_def)

section \<open>The key a schema advertises and the key a document holds\<close>

text \<open>
  C8. For a \<open>GnomadFactory\<close> the schema advertises the key \<open>genes\<close> under the factory's
  id, and the document \<open>init_metadata\<close> gives a node holds the key
  \<open>variant_annotations\<close> there.
\<close>

theorem gnomad_schema_key_differs:
  "get_schema gnomad_demo schema = JObj [(''2'', JObj [(''genes'', schema)])]
   \<and> documents (init_metadata aliases gnomad_demo [node_1] empty_memory store_1)
       = [JObj [(''factories'', JObj [(''2'', JObj [(''variant_annotations'', JList [JObj []])])])]]"
  by (simp add: get_schema_def gnomad_demo_def str_int_2 documents_def node_1_def
        empty_memory_def store_1_def empty_store_def contribution_def variant_annotation_of_def
        objects_get_def alloc_def save_def)

section \<open>The overlap query of the gene-constraint factory\<close>

lemma gene_filter_typed:
  assumes "well_typed (gene_metadata g)"
  shows "gene_filter E aliases self v g \<longleftrightarrow>
     gene_factory g = pk self
     \<and> (\<exists>c s e. json_key ''chromosome'' (gene_metadata g) = Some (JStr c)
           \<and> json_key ''start_position'' (gene_metadata g) = Some (JInt s)
           \<and> json_key ''end_position'' (gene_metadata g) = Some (JInt e)
           \<and> c \<in> set (aliases (variant_region v))
           \<and> s \<le> pos v + int (length (ref v)) \<and> e \<ge> pos v)"
proof -
  from assms have c: "json_key ''chromosome'' (gene_metadata g) = None
      \<or> (\<exists>c. json_key ''chromosome'' (gene_metadata g) = Some (JStr c))"
    by (auto simp: well_typed_def split: option.splits json.splits)
  from assms have s: "json_key ''start_position'' (gene_metadata g) = None
      \<or> (\<exists>a. json_key ''start_position'' (gene_metadata g) = Some (JInt a))"
    by (auto simp: well_typed_def split: option.splits json.splits)
  from assms have e: "json_key ''end_position'' (gene_metadata g) = None
      \<or> (\<exists>a. json_key ''end_position'' (gene_metadata g) = Some (JInt a))"
    by (auto simp: well_typed_def split: option.splits json.splits)
  from c s e show ?thesis
    unfolding gene_filter_def key_in_def key_lte_def key_gte_def by auto
qed

text \<open>
  C4, as the code has it. Over a store in which the gene rows of the factory hold,
  where they hold them, a string as chromosome and integers as start and end position,
  the list a gene-constraint factory contributes for a variant is the metadata, in
  table order, of exactly the factory's gene rows whose chromosome is one of the
  aliases of the variant's region, whose start position is at most
  \<open>pos + len(ref)\<close> and whose end position is at least \<open>pos\<close>. It is what the factory
  puts under the key \<open>genes\<close>, and what \<open>init_metadata\<close> writes into the document of a
  node. A gene spanning 100 to 200 on contig 1 is returned for a variant at 150 with
  reference \<open>A\<close> and not for one at 250.
\<close>

theorem gene_contribution_overlap:
  assumes "\<forall>g \<in> set (genes st). gene_factory g = pk self \<longrightarrow> well_typed (gene_metadata g)"
  shows "genes_of aliases self v st =
     map gene_metadata (filter (\<lambda>g. gene_factory g = pk self
        \<and> (\<exists>c s e. json_key ''chromosome'' (gene_metadata g) = Some (JStr c)
              \<and> json_key ''start_position'' (gene_metadata g) = Some (JInt s)
              \<and> json_key ''end_position'' (gene_metadata g) = Some (JInt e)
              \<and> c \<in> set (aliases (variant_region v))
              \<and> s \<le> pos v + int (length (ref v)) \<and> e \<ge> pos v)) (genes st))
   \<and> (cls self = GnomadConstraintFactory \<longrightarrow>
        contribution aliases self v st = Inr (JObj [(''genes'', JList (genes_of aliases self v st))])
        \<and> documents (init_metadata aliases self [n] mem st)
            = [JObj [(''factories'',
                 JObj [(str_int (pk self),
                        JObj [(''genes'', JList (genes_of aliases self (node_variant n) st))])])]])
   \<and> genes_of aliases_1 constraint_demo variant_150 store_genes = [gene_metadata gene_100_200]
   \<and> genes_of aliases_1 constraint_demo variant_250 store_genes = []"
proof (intro conjI impI)
  have "filter (gene_filter (database st) aliases self v) (genes st)
      = filter (\<lambda>g. gene_factory g = pk self
        \<and> (\<exists>c s e. json_key ''chromosome'' (gene_metadata g) = Some (JStr c)
              \<and> json_key ''start_position'' (gene_metadata g) = Some (JInt s)
              \<and> json_key ''end_position'' (gene_metadata g) = Some (JInt e)
              \<and> c \<in> set (aliases (variant_region v))
              \<and> s \<le> pos v + int (length (ref v)) \<and> e \<ge> pos v)) (genes st)"
  proof (rule filter_cong[OF refl])
    fix g
    assume g: "g \<in> set (genes st)"
    show "gene_filter (database st) aliases self v g = (gene_factory g = pk self
        \<and> (\<exists>c s e. json_key ''chromosome'' (gene_metadata g) = Some (JStr c)
              \<and> json_key ''start_position'' (gene_metadata g) = Some (JInt s)
              \<and> json_key ''end_position'' (gene_metadata g) = Some (JInt e)
              \<and> c \<in> set (aliases (variant_region v))
              \<and> s \<le> pos v + int (length (ref v)) \<and> e \<ge> pos v))"
    proof (cases "gene_factory g = pk self")
      case True
      with assms g have "well_typed (gene_metadata g)" by blast
      from gene_filter_typed[OF this] show ?thesis .
    next
      case False
      then show ?thesis by (simp add: gene_filter_def)
    qed
  qed
  then show "genes_of aliases self v st =
     map gene_metadata (filter (\<lambda>g. gene_factory g = pk self
        \<and> (\<exists>c s e. json_key ''chromosome'' (gene_metadata g) = Some (JStr c)
              \<and> json_key ''start_position'' (gene_metadata g) = Some (JInt s)
              \<and> json_key ''end_position'' (gene_metadata g) = Some (JInt e)
              \<and> c \<in> set (aliases (variant_region v))
              \<and> s \<le> pos v + int (length (ref v)) \<and> e \<ge> pos v)) (genes st))"
    by (simp add: genes_of_def)
next
  assume "cls self = GnomadConstraintFactory"
  then show "contribution aliases self v st = Inr (JObj [(''genes'', JList (genes_of aliases self v st))])"
    by (simp add: contribution_def)
next
  assume "cls self = GnomadConstraintFactory"
  then show "documents (init_metadata aliases self [n] mem st)
            = [JObj [(''factories'',
                 JObj [(str_int (pk self),
                        JObj [(''genes'', JList (genes_of aliases self (node_variant n) st))])])]]"
    by (simp add: documents_def contribution_def alloc_def Let_def)
next
  show "genes_of aliases_1 constraint_demo variant_150 store_genes = [gene_metadata gene_100_200]"
    by (simp add: genes_of_def gene_filter_def key_in_def key_lte_def key_gte_def json_key_def
          aliases_1_def constraint_demo_def variant_150_def store_genes_def gene_100_200_def
          empty_store_def)
next
  show "genes_of aliases_1 constraint_demo variant_250 store_genes = []"
    by (simp add: genes_of_def gene_filter_def key_in_def key_lte_def key_gte_def json_key_def
          aliases_1_def constraint_demo_def variant_250_def store_genes_def gene_100_200_def
          empty_store_def)
qed

theorem gene_contribution_overlap_witness:
  "well_typed (gene_metadata gene_100_200)
   \<and> cls constraint_demo = GnomadConstraintFactory
   \<and> contribution aliases_1 constraint_demo variant_150 store_genes
       = Inr (JObj [(''genes'', JList [gene_metadata gene_100_200])])"
proof -
  have w: "well_typed (gene_metadata gene_100_200)"
    by (simp add: well_typed_def gene_100_200_def json_key_def)
  then have h: "\<forall>g \<in> set (genes store_genes).
      gene_factory g = pk constraint_demo \<longrightarrow> well_typed (gene_metadata g)"
    by (simp add: store_genes_def)
  have c: "cls constraint_demo = GnomadConstraintFactory" by (simp add: constraint_demo_def)
  note t = gene_contribution_overlap[OF h, of aliases_1 variant_150]
  from t c have a: "contribution aliases_1 constraint_demo variant_150 store_genes
       = Inr (JObj [(''genes'', JList (genes_of aliases_1 constraint_demo variant_150 store_genes))])"
    by blast
  from t have b: "genes_of aliases_1 constraint_demo variant_150 store_genes
       = [gene_metadata gene_100_200]"
    by blast
  from a c w show ?thesis unfolding b by simp
qed

text \<open>
  A gene row of the factory whose start position is the JSON null, in a PostgreSQL
  store: null is below every number, so the row passes the test on the start position
  and is returned for a variant at 150, though it has no start position at most 151.
\<close>

theorem gene_with_null_start_is_returned:
  "genes_of aliases_1 constraint_demo variant_150 store_null_start
     = [gene_metadata gene_null_start]
   \<and> json_key ''start_position'' (gene_metadata gene_null_start) = Some JNull
   \<and> database store_null_start = postgresql"
  by (simp add: genes_of_def gene_filter_def key_in_def key_lte_def key_gte_def json_key_def
        aliases_1_def constraint_demo_def variant_150_def store_null_start_def
        gene_null_start_def empty_store_def postgresql_def)

section \<open>Node documents\<close>

lemma contribution_cong:
  "variant_annotations st1 = variant_annotations st \<Longrightarrow> genes st1 = genes st \<Longrightarrow>
     database st1 = database st \<Longrightarrow>
     contribution aliases self v st1 = contribution aliases self v st"
proof -
  assume a: "variant_annotations st1 = variant_annotations st" "genes st1 = genes st"
    "database st1 = database st"
  have v: "variant_annotation_of self v st1 = variant_annotation_of self v st"
    by (simp add: variant_annotation_of_def a)
  have g: "genes_of aliases self v st1 = genes_of aliases self v st"
    by (simp add: genes_of_def a)
  show ?thesis unfolding contribution_def v g ..
qed

lemma save_frame:
  "regions (save n mem st) = regions st" "variants (save n mem st) = variants st"
  "variant_annotations (save n mem st) = variant_annotations st"
  "genes (save n mem st) = genes st" "statements (save n mem st) = statements st"
  "database (save n mem st) = database st"
  by (simp_all add: save_def)

lemma init_metadata_returns:
  assumes "\<forall>n \<in> set ns. \<exists>c. contribution aliases self (node_variant n) st = Inr c"
  shows "\<exists>ns1 mem1 st1. init_metadata aliases self ns mem st = Inr (ns1, mem1, st1)
     \<and> length ns1 = length ns
     \<and> next_cell mem1 = next_cell mem + length ns
     \<and> (\<forall>a. a < next_cell mem \<longrightarrow> cells mem1 a = cells mem a)
     \<and> variant_annotations st1 = variant_annotations st \<and> genes st1 = genes st
     \<and> regions st1 = regions st \<and> variants st1 = variants st
     \<and> (\<forall>i < length ns.
           ns1 ! i = (ns ! i)\<lparr>node_metadata := next_cell mem + i, node_building := BUILDING_SUCCESS\<rparr>
           \<and> (\<forall>c. contribution aliases self (node_variant (ns ! i)) st = Inr c \<longrightarrow>
                 cells mem1 (next_cell mem + i) = JObj [(''factories'', JObj [(str_int (pk self), c)])]))"
  using assms
proof (induction ns arbitrary: mem st)
  case Nil
  then show ?case by simp
next
  case (Cons n ns)
  from Cons.prems obtain c where c: "contribution aliases self (node_variant n) st = Inr c"
    by auto
  define d where "d = JObj [(''factories'', JObj [(str_int (pk self), c)])]"
  define mem0 where "mem0 = mem\<lparr>cells := (cells mem)(next_cell mem := d), next_cell := Suc (next_cell mem)\<rparr>"
  define n1 where "n1 = n\<lparr>node_metadata := next_cell mem, node_building := BUILDING_SUCCESS\<rparr>"
  define st0 where "st0 = save n1 mem0 st"
  have fr: "variant_annotations st0 = variant_annotations st" "genes st0 = genes st"
    "regions st0 = regions st" "variants st0 = variants st" "database st0 = database st"
    by (simp_all add: st0_def save_frame)
  have same: "\<And>v. contribution aliases self v st0 = contribution aliases self v st"
    by (rule contribution_cong) (simp_all add: fr)
  have "\<forall>n \<in> set ns. \<exists>c. contribution aliases self (node_variant n) st0 = Inr c"
    using Cons.prems by (simp add: same)
  from Cons.IH[OF this, of mem0] obtain ns1 mem1 st1 where
    run: "init_metadata aliases self ns mem0 st0 = Inr (ns1, mem1, st1)"
    and len: "length ns1 = length ns"
    and nxt: "next_cell mem1 = next_cell mem0 + length ns"
    and old: "\<forall>a. a < next_cell mem0 \<longrightarrow> cells mem1 a = cells mem0 a"
    and tabs: "variant_annotations st1 = variant_annotations st0" "genes st1 = genes st0"
       "regions st1 = regions st0" "variants st1 = variants st0"
    and each: "\<forall>i < length ns.
           ns1 ! i = (ns ! i)\<lparr>node_metadata := next_cell mem0 + i, node_building := BUILDING_SUCCESS\<rparr>
           \<and> (\<forall>c. contribution aliases self (node_variant (ns ! i)) st0 = Inr c \<longrightarrow>
                 cells mem1 (next_cell mem0 + i) = JObj [(''factories'', JObj [(str_int (pk self), c)])])"
    by blast
  have nx0: "next_cell mem0 = Suc (next_cell mem)" by (simp add: mem0_def)
  have res: "init_metadata aliases self (n # ns) mem st = Inr (n1 # ns1, mem1, st1)"
    using c run by (simp add: alloc_def d_def mem0_def n1_def st0_def Let_def)
  have head: "cells mem1 (next_cell mem) = d"
    using old nx0 by (simp add: mem0_def)
  have keep: "\<forall>a. a < next_cell mem \<longrightarrow> cells mem1 a = cells mem a"
    using old nx0 by (simp add: mem0_def)
  have all: "\<forall>i < length (n # ns).
           (n1 # ns1) ! i = ((n # ns) ! i)\<lparr>node_metadata := next_cell mem + i, node_building := BUILDING_SUCCESS\<rparr>
           \<and> (\<forall>c. contribution aliases self (node_variant ((n # ns) ! i)) st = Inr c \<longrightarrow>
                 cells mem1 (next_cell mem + i) = JObj [(''factories'', JObj [(str_int (pk self), c)])])"
  proof (intro allI impI)
    fix i
    assume i: "i < length (n # ns)"
    show "(n1 # ns1) ! i = ((n # ns) ! i)\<lparr>node_metadata := next_cell mem + i, node_building := BUILDING_SUCCESS\<rparr>
           \<and> (\<forall>c. contribution aliases self (node_variant ((n # ns) ! i)) st = Inr c \<longrightarrow>
                 cells mem1 (next_cell mem + i) = JObj [(''factories'', JObj [(str_int (pk self), c)])])"
    proof (cases i)
      case 0
      then show ?thesis using c head by (simp add: n1_def d_def)
    next
      case (Suc j)
      with i have "j < length ns" by simp
      with each have "ns1 ! j = (ns ! j)\<lparr>node_metadata := next_cell mem0 + j, node_building := BUILDING_SUCCESS\<rparr>
           \<and> (\<forall>c. contribution aliases self (node_variant (ns ! j)) st0 = Inr c \<longrightarrow>
                 cells mem1 (next_cell mem0 + j) = JObj [(''factories'', JObj [(str_int (pk self), c)])])"
        by blast
      then show ?thesis using Suc nx0 by (simp add: same)
    qed
  qed
  show ?case
    using res len nxt nx0 keep tabs fr all by (intro exI[of _ "n1 # ns1"] exI[of _ mem1] exI[of _ st1]) simp
qed

lemma variant_annotation_of_single:
  assumes "length (filter (va_key (pk self) (variant_id v)) (variant_annotations st)) \<le> 1"
  shows "\<exists>p. variant_annotation_of self v st = Inr p
     \<and> ((\<exists>a \<in> set (variant_annotations st).
            va_factory a = pk self \<and> va_variant a = variant_id v \<and> p = va_metadata a)
        \<or> ((\<forall>a \<in> set (variant_annotations st).
               \<not> (va_factory a = pk self \<and> va_variant a = variant_id v))
            \<and> p = JObj []))"
proof (cases rule: objects_get_cases[of "va_key (pk self) (variant_id v)" "variant_annotations st"])
  case (found r)
  from found(2) have "r \<in> set (filter (va_key (pk self) (variant_id v)) (variant_annotations st))"
    by simp
  then have "r \<in> set (variant_annotations st)" "va_key (pk self) (variant_id v) r"
    by simp_all
  with found(1) show ?thesis
    by (auto simp: variant_annotation_of_def va_key_def)
next
  case missing
  from missing(2) have "\<forall>a \<in> set (variant_annotations st). \<not> va_key (pk self) (variant_id v) a"
    by (simp add: filter_empty_conv)
  with missing(1) show ?thesis
    by (auto simp: variant_annotation_of_def va_key_def)
next
  case several
  with assms show ?thesis
    by (auto simp: objects_get_def split: list.splits)
qed

lemma save_row_mem: "r \<in> set (save_row r rows)"
proof (cases "list_ex (\<lambda>x. row_id x = row_id r) rows")
  case True
  then obtain x where "x \<in> set rows" "row_id x = row_id r" by (auto simp: list_ex_iff)
  then have "r \<in> (\<lambda>x. if row_id x = row_id r then r else x) ` set rows" by force
  with True show ?thesis by (simp add: save_row_def)
next
  case False
  then show ?thesis by (simp add: save_row_def)
qed

lemma save_row_keeps: "x \<in> set rows \<Longrightarrow> row_id x \<noteq> row_id r \<Longrightarrow> x \<in> set (save_row r rows)"
  by (auto simp: save_row_def)

lemma init_metadata_rows:
  "init_metadata aliases self ns mem st = Inr (ns1, mem1, st1) \<Longrightarrow> distinct (map node_id ns) \<Longrightarrow>
     (\<forall>r \<in> set (node_rows st). row_id r \<notin> node_id ` set ns \<longrightarrow> r \<in> set (node_rows st1))
     \<and> (\<forall>n \<in> set ns. \<forall>c. contribution aliases self (node_variant n) st = Inr c \<longrightarrow>
           \<lparr>row_id = node_id n, row_variant = variant_id (node_variant n),
            row_metadata = JObj [(''factories'', JObj [(str_int (pk self), c)])],
            row_building = BUILDING_SUCCESS\<rparr> \<in> set (node_rows st1))"
proof (induction ns arbitrary: mem st ns1)
  case Nil
  then show ?case by simp
next
  case (Cons n ns)
  show ?case
  proof (cases "contribution aliases self (node_variant n) st")
    case (Inl e)
    with Cons.prems(1) show ?thesis by simp
  next
    case (Inr c)
    define d where "d = JObj [(''factories'', JObj [(str_int (pk self), c)])]"
    define mem0 where "mem0 = mem\<lparr>cells := (cells mem)(next_cell mem := d), next_cell := Suc (next_cell mem)\<rparr>"
    define n1 where "n1 = n\<lparr>node_metadata := next_cell mem, node_building := BUILDING_SUCCESS\<rparr>"
    define st0 where "st0 = save n1 mem0 st"
    define row where "row = \<lparr>row_id = node_id n, row_variant = variant_id (node_variant n),
            row_metadata = d, row_building = BUILDING_SUCCESS\<rparr>"
    have rows0: "node_rows st0 = save_row row (node_rows st)"
      by (simp add: st0_def save_def row_def n1_def mem0_def)
    have same: "\<And>v. contribution aliases self v st0 = contribution aliases self v st"
      by (rule contribution_cong) (simp_all add: st0_def save_frame)
    from Cons.prems(1) Inr obtain ns2 where
      run: "init_metadata aliases self ns mem0 st0 = Inr (ns2, mem1, st1)"
      by (auto simp: alloc_def d_def mem0_def n1_def st0_def Let_def split: sum.splits)
    from Cons.prems(2) have dist: "distinct (map node_id ns)" and fresh: "node_id n \<notin> node_id ` set ns"
      by simp_all
    note ih = Cons.IH[OF run dist]
    have row_in: "row \<in> set (node_rows st1)"
    proof -
      have "row \<in> set (node_rows st0)" by (simp add: rows0 save_row_mem)
      moreover have "row_id row \<notin> node_id ` set ns" using fresh by (simp add: row_def)
      ultimately show ?thesis using ih by blast
    qed
    have keep: "\<forall>r \<in> set (node_rows st). row_id r \<notin> node_id ` set (n # ns) \<longrightarrow> r \<in> set (node_rows st1)"
    proof (intro ballI impI)
      fix r
      assume r: "r \<in> set (node_rows st)" "row_id r \<notin> node_id ` set (n # ns)"
      then have "row_id r \<noteq> row_id row" by (simp add: row_def)
      with r(1) have "r \<in> set (node_rows st0)" by (simp add: rows0 save_row_keeps)
      moreover from r(2) have "row_id r \<notin> node_id ` set ns" by simp
      ultimately show "r \<in> set (node_rows st1)" using ih by blast
    qed
    have each: "\<forall>m \<in> set (n # ns). \<forall>c. contribution aliases self (node_variant m) st = Inr c \<longrightarrow>
           \<lparr>row_id = node_id m, row_variant = variant_id (node_variant m),
            row_metadata = JObj [(''factories'', JObj [(str_int (pk self), c)])],
            row_building = BUILDING_SUCCESS\<rparr> \<in> set (node_rows st1)"
    proof (intro ballI allI impI)
      fix m c1
      assume m: "m \<in> set (n # ns)" and c1: "contribution aliases self (node_variant m) st = Inr c1"
      show "\<lparr>row_id = node_id m, row_variant = variant_id (node_variant m),
            row_metadata = JObj [(''factories'', JObj [(str_int (pk self), c1)])],
            row_building = BUILDING_SUCCESS\<rparr> \<in> set (node_rows st1)"
      proof (cases "m = n")
        case True
        with c1 Inr have "c1 = c" by simp
        with True row_in show ?thesis by (simp add: row_def d_def)
      next
        case False
        with m have "m \<in> set ns" by simp
        moreover from c1 have "contribution aliases self (node_variant m) st0 = Inr c1"
          by (simp add: same)
        ultimately show ?thesis using ih by blast
      qed
    qed
    from keep each show ?thesis by blast
  qed
qed

text \<open>
  C6, as the code has it. For a \<open>ClinvarFactory\<close> or a \<open>GnomadFactory\<close> and a store with at
  most one annotation row of the factory for each node's variant, \<open>init_metadata\<close>
  returns, and each node, otherwise unchanged, is marked as built with success and
  refers to a new document that is exactly
  \<open>{"factories": {<id>: {"variant_annotations": [payload]}}}\<close>, where the payload is
  the metadata of the factory's annotation row for the node's variant, or the empty
  dict when there is no such row. The annotation rows are not written, and for nodes
  of distinct ids the stored row of each node holds that document and the success
  mark.
\<close>

theorem init_metadata_documents:
  assumes "cls self \<noteq> GnomadConstraintFactory"
    and "\<forall>n \<in> set ns.
           length (filter (va_key (pk self) (variant_id (node_variant n))) (variant_annotations st)) \<le> 1"
  shows "\<exists>ns1 mem1 st1. init_metadata aliases self ns mem st = Inr (ns1, mem1, st1)
     \<and> length ns1 = length ns
     \<and> variant_annotations st1 = variant_annotations st
     \<and> (\<forall>i < length ns.
           node_id (ns1 ! i) = node_id (ns ! i)
           \<and> node_variant (ns1 ! i) = node_variant (ns ! i)
           \<and> node_building (ns1 ! i) = BUILDING_SUCCESS
           \<and> next_cell mem \<le> node_metadata (ns1 ! i)
           \<and> (\<exists>payload.
                 cells mem1 (node_metadata (ns1 ! i)) =
                   JObj [(''factories'',
                          JObj [(str_int (pk self),
                                 JObj [(''variant_annotations'', JList [payload])])])]
                 \<and> ((\<exists>a \<in> set (variant_annotations st).
                        va_factory a = pk self \<and> va_variant a = variant_id (node_variant (ns ! i))
                        \<and> payload = va_metadata a)
                    \<or> ((\<forall>a \<in> set (variant_annotations st).
                           \<not> (va_factory a = pk self
                              \<and> va_variant a = variant_id (node_variant (ns ! i))))
                        \<and> payload = JObj []))))
     \<and> (distinct (map node_id ns) \<longrightarrow>
          (\<forall>i < length ns.
             \<lparr>row_id = node_id (ns ! i), row_variant = variant_id (node_variant (ns ! i)),
              row_metadata = cells mem1 (node_metadata (ns1 ! i)),
              row_building = BUILDING_SUCCESS\<rparr> \<in> set (node_rows st1)))"
proof -
  have wrap: "\<And>v. contribution aliases self v st =
      (case variant_annotation_of self v st of
         Inl e \<Rightarrow> Inl e
       | Inr p \<Rightarrow> Inr (JObj [(''variant_annotations'', JList [p])]))"
    using assms(1) by (cases "cls self") (simp_all add: contribution_def)
  have ok: "\<forall>n \<in> set ns. \<exists>c. contribution aliases self (node_variant n) st = Inr c"
  proof
    fix n
    assume "n \<in> set ns"
    with assms(2) variant_annotation_of_single[of self "node_variant n" st]
    obtain p where "variant_annotation_of self (node_variant n) st = Inr p" by blast
    then show "\<exists>c. contribution aliases self (node_variant n) st = Inr c"
      by (simp add: wrap)
  qed
  from init_metadata_returns[OF ok, of mem] obtain ns1 mem1 st1 where
    run: "init_metadata aliases self ns mem st = Inr (ns1, mem1, st1)"
    and len: "length ns1 = length ns"
    and rows: "variant_annotations st1 = variant_annotations st"
    and each: "\<forall>i < length ns.
           ns1 ! i = (ns ! i)\<lparr>node_metadata := next_cell mem + i, node_building := BUILDING_SUCCESS\<rparr>
           \<and> (\<forall>c. contribution aliases self (node_variant (ns ! i)) st = Inr c \<longrightarrow>
                 cells mem1 (next_cell mem + i) = JObj [(''factories'', JObj [(str_int (pk self), c)])])"
    by blast
  have "\<forall>i < length ns.
           node_id (ns1 ! i) = node_id (ns ! i)
           \<and> node_variant (ns1 ! i) = node_variant (ns ! i)
           \<and> node_building (ns1 ! i) = BUILDING_SUCCESS
           \<and> next_cell mem \<le> node_metadata (ns1 ! i)
           \<and> (\<exists>payload.
                 cells mem1 (node_metadata (ns1 ! i)) =
                   JObj [(''factories'',
                          JObj [(str_int (pk self),
                                 JObj [(''variant_annotations'', JList [payload])])])]
                 \<and> ((\<exists>a \<in> set (variant_annotations st).
                        va_factory a = pk self \<and> va_variant a = variant_id (node_variant (ns ! i))
                        \<and> payload = va_metadata a)
                    \<or> ((\<forall>a \<in> set (variant_annotations st).
                           \<not> (va_factory a = pk self
                              \<and> va_variant a = variant_id (node_variant (ns ! i))))
                        \<and> payload = JObj [])))"
  proof (intro allI impI)
    fix i
    assume i: "i < length ns"
    then have mem_i: "ns ! i \<in> set ns" by simp
    from each i have n1: "ns1 ! i = (ns ! i)\<lparr>node_metadata := next_cell mem + i, node_building := BUILDING_SUCCESS\<rparr>"
      and cell: "\<And>c. contribution aliases self (node_variant (ns ! i)) st = Inr c \<Longrightarrow>
                 cells mem1 (next_cell mem + i) = JObj [(''factories'', JObj [(str_int (pk self), c)])]"
      by blast+
    from assms(2) mem_i variant_annotation_of_single[of self "node_variant (ns ! i)" st]
    obtain p where p: "variant_annotation_of self (node_variant (ns ! i)) st = Inr p"
      and which: "(\<exists>a \<in> set (variant_annotations st).
            va_factory a = pk self \<and> va_variant a = variant_id (node_variant (ns ! i)) \<and> p = va_metadata a)
        \<or> ((\<forall>a \<in> set (variant_annotations st).
               \<not> (va_factory a = pk self \<and> va_variant a = variant_id (node_variant (ns ! i))))
            \<and> p = JObj [])"
      by blast
    from p have "contribution aliases self (node_variant (ns ! i)) st
        = Inr (JObj [(''variant_annotations'', JList [p])])"
      by (simp add: wrap)
    from cell[OF this] have doc: "cells mem1 (node_metadata (ns1 ! i)) =
        JObj [(''factories'', JObj [(str_int (pk self), JObj [(''variant_annotations'', JList [p])])])]"
      by (simp add: n1)
    show "node_id (ns1 ! i) = node_id (ns ! i)
           \<and> node_variant (ns1 ! i) = node_variant (ns ! i)
           \<and> node_building (ns1 ! i) = BUILDING_SUCCESS
           \<and> next_cell mem \<le> node_metadata (ns1 ! i)
           \<and> (\<exists>payload.
                 cells mem1 (node_metadata (ns1 ! i)) =
                   JObj [(''factories'',
                          JObj [(str_int (pk self),
                                 JObj [(''variant_annotations'', JList [payload])])])]
                 \<and> ((\<exists>a \<in> set (variant_annotations st).
                        va_factory a = pk self \<and> va_variant a = variant_id (node_variant (ns ! i))
                        \<and> payload = va_metadata a)
                    \<or> ((\<forall>a \<in> set (variant_annotations st).
                           \<not> (va_factory a = pk self
                              \<and> va_variant a = variant_id (node_variant (ns ! i))))
                        \<and> payload = JObj [])))"
      using doc which by (intro conjI exI[of _ p]) (simp_all add: n1)
  qed
  moreover have "distinct (map node_id ns) \<longrightarrow>
          (\<forall>i < length ns.
             \<lparr>row_id = node_id (ns ! i), row_variant = variant_id (node_variant (ns ! i)),
              row_metadata = cells mem1 (node_metadata (ns1 ! i)),
              row_building = BUILDING_SUCCESS\<rparr> \<in> set (node_rows st1))"
  proof (intro impI allI)
    fix i
    assume d: "distinct (map node_id ns)" and i: "i < length ns"
    then have mem_i: "ns ! i \<in> set ns" by simp
    from ok mem_i obtain c where c: "contribution aliases self (node_variant (ns ! i)) st = Inr c"
      by blast
    from each i c have cell: "cells mem1 (node_metadata (ns1 ! i))
        = JObj [(''factories'', JObj [(str_int (pk self), c)])]"
      by simp
    from init_metadata_rows[OF run d] mem_i c
    have "\<lparr>row_id = node_id (ns ! i), row_variant = variant_id (node_variant (ns ! i)),
           row_metadata = JObj [(''factories'', JObj [(str_int (pk self), c)])],
           row_building = BUILDING_SUCCESS\<rparr> \<in> set (node_rows st1)"
      by blast
    then show "\<lparr>row_id = node_id (ns ! i), row_variant = variant_id (node_variant (ns ! i)),
              row_metadata = cells mem1 (node_metadata (ns1 ! i)),
              row_building = BUILDING_SUCCESS\<rparr> \<in> set (node_rows st1)"
      by (simp add: cell)
  qed
  ultimately show ?thesis using run len rows by blast
qed

theorem init_metadata_documents_witness:
  "cls clinvar_demo \<noteq> GnomadConstraintFactory
   \<and> length (filter (va_key (pk clinvar_demo) (variant_id (node_variant node_1)))
         (variant_annotations store_annotated)) \<le> 1
   \<and> (\<exists>ns1 mem1 st1.
         init_metadata no_aliases clinvar_demo [node_1] empty_memory store_annotated
           = Inr (ns1, mem1, st1)
         \<and> length ns1 = 1 \<and> node_building (ns1 ! 0) = BUILDING_SUCCESS)
   \<and> documents (init_metadata no_aliases clinvar_demo [node_1] empty_memory store_annotated)
       = [JObj [(''factories'',
                 JObj [(''1'', JObj [(''variant_annotations'',
                                      JList [JObj [(''CLNSIG'', JStr ''Benign'')]])])])]]"
proof -
  have h1: "cls clinvar_demo \<noteq> GnomadConstraintFactory"
    by (simp add: clinvar_demo_def)
  have h2: "length (filter (va_key (pk clinvar_demo) (variant_id (node_variant node_1)))
         (variant_annotations store_annotated)) \<le> 1"
    by (simp add: store_annotated_def)
  then have h2': "\<forall>n \<in> set [node_1].
      length (filter (va_key (pk clinvar_demo) (variant_id (node_variant n)))
         (variant_annotations store_annotated)) \<le> 1"
    by simp
  from init_metadata_documents[OF h1 h2', of no_aliases empty_memory]
  have run: "\<exists>ns1 mem1 st1.
         init_metadata no_aliases clinvar_demo [node_1] empty_memory store_annotated
           = Inr (ns1, mem1, st1)
         \<and> length ns1 = 1 \<and> node_building (ns1 ! 0) = BUILDING_SUCCESS"
    by fastforce
  have docs: "documents (init_metadata no_aliases clinvar_demo [node_1] empty_memory store_annotated)
       = [JObj [(''factories'',
                 JObj [(''1'', JObj [(''variant_annotations'',
                                      JList [JObj [(''CLNSIG'', JStr ''Benign'')]])])])]]"
    by (simp add: documents_def clinvar_demo_def str_int_1 node_1_def variant_1_def
          empty_memory_def store_annotated_def store_1_def empty_store_def contribution_def
          variant_annotation_of_def objects_get_def va_key_def alloc_def save_def)
  from h1 h2 run docs show ?thesis by blast
qed

text \<open>
  The store that the load of two records of one variant leaves holds two annotation rows
  of the factory for the variant of the node: the lookup raises
  \<open>MultipleObjectsReturned\<close>, no document is set and nothing is saved.
\<close>

theorem init_metadata_two_rows:
  "init_metadata no_aliases clinvar_demo [node_1] empty_memory store_two_rows
     = Inl (MultipleObjectsReturned, store_two_rows)"
  by (simp add: contribution_def clinvar_demo_def variant_annotation_of_def objects_get_def
        va_key_def store_two_rows_def store_1_def empty_store_def node_1_def variant_1_def)

section \<open>Merging into the parent's document\<close>

text \<open>
  C2, as the code has it. When the parent's document is a dict that holds a dict under
  \<open>factories\<close>, and the factory's contribution for the node's variant is found,
  \<open>merge_metadata\<close> returns; the node, marked as built with success, refers to the
  parent's document object, in which the factory's key holds the contribution, every
  other key under \<open>factories\<close> and every field outside it is as it was, and the keys
  outside are in the same order. No other document in memory changes, and no stored
  row of another node is written.
\<close>

theorem merge_metadata_frame:
  assumes "cells mem (node_metadata parent) = JObj doc"
    and "map_of doc ''factories'' = Some (JObj fs)"
    and "contribution aliases self (node_variant n) st = Inr c"
  shows "\<exists>n1 mem1 st1 doc1 fs1.
      merge_metadata aliases self n parent mem st = Inr (n1, mem1, st1)
    \<and> n1 = n\<lparr>node_metadata := node_metadata parent, node_building := BUILDING_SUCCESS\<rparr>
    \<and> cells mem1 (node_metadata n1) = JObj doc1
    \<and> map_of doc1 ''factories'' = Some (JObj fs1)
    \<and> map_of fs1 (str_int (pk self)) = Some c
    \<and> AList.delete (str_int (pk self)) fs1 = AList.delete (str_int (pk self)) fs
    \<and> AList.delete ''factories'' doc1 = AList.delete ''factories'' doc
    \<and> map fst doc1 = map fst doc
    \<and> (\<forall>a. a \<noteq> node_metadata parent \<longrightarrow> cells mem1 a = cells mem a)
    \<and> (\<forall>r \<in> set (node_rows st). row_id r \<noteq> node_id n \<longrightarrow> r \<in> set (node_rows st1))
    \<and> variant_annotations st1 = variant_annotations st \<and> genes st1 = genes st"
proof -
  define fs1 where "fs1 = AList.update (str_int (pk self)) c fs"
  define doc1 where "doc1 = AList.update ''factories'' (JObj fs1) doc"
  define mem1 where "mem1 = mem\<lparr>cells := (cells mem)(node_metadata parent := JObj doc1)\<rparr>"
  define n1 where "n1 = n\<lparr>node_metadata := node_metadata parent, node_building := BUILDING_SUCCESS\<rparr>"
  define st1 where "st1 = save n1 mem1 st"
  have run: "merge_metadata aliases self n parent mem st = Inr (n1, mem1, st1)"
    using assms by (simp add: merge_metadata_def Let_def fs1_def doc1_def mem1_def n1_def st1_def)
  have a: "cells mem1 (node_metadata n1) = JObj doc1" by (simp add: mem1_def n1_def)
  have b: "map_of doc1 ''factories'' = Some (JObj fs1)" by (simp add: doc1_def update_conv')
  have c: "map_of fs1 (str_int (pk self)) = Some c" by (simp add: fs1_def update_conv')
  have d: "AList.delete (str_int (pk self)) fs1 = AList.delete (str_int (pk self)) fs"
    by (simp add: fs1_def delete_update_same)
  have e: "AList.delete ''factories'' doc1 = AList.delete ''factories'' doc"
    by (simp add: doc1_def delete_update_same)
  have "''factories'' \<in> fst ` set doc" using assms(2) by (metis domI dom_map_of_conv_image_fst)
  then have f: "map fst doc1 = map fst doc" by (simp add: doc1_def update_keys)
  have g: "\<forall>a. a \<noteq> node_metadata parent \<longrightarrow> cells mem1 a = cells mem a"
    by (simp add: mem1_def)
  have h: "\<forall>r \<in> set (node_rows st). row_id r \<noteq> node_id n \<longrightarrow> r \<in> set (node_rows st1)"
    by (auto simp: st1_def save_def save_row_def n1_def)
  have i: "variant_annotations st1 = variant_annotations st \<and> genes st1 = genes st"
    by (simp add: st1_def save_frame)
  from run a b c d e f g h i n1_def show ?thesis by blast
qed

text \<open>
  The parent's document before and after a merge by \<open>clinvar_demo\<close>: the parent's own
  document has gained the key of the merging factory.
\<close>

theorem merge_metadata_changes_parent_document:
  "document_after (node_metadata parent_1)
      (merge_metadata no_aliases clinvar_demo node_1 parent_1 memory_1 store_1)
     = Some (JObj [(''factories'',
               JObj [(''2'', JObj [(''variant_annotations'', JList [JObj []])]),
                     (''1'', JObj [(''variant_annotations'', JList [JObj []])])])])
   \<and> cells memory_1 (node_metadata parent_1)
     = JObj [(''factories'', JObj [(''2'', JObj [(''variant_annotations'', JList [JObj []])])])]
   \<and> document_after (node_metadata parent_1)
      (merge_metadata no_aliases clinvar_demo node_1 parent_1 memory_1 store_1)
     \<noteq> Some (cells memory_1 (node_metadata parent_1))"
  by (simp add: document_after_def merge_metadata_def parent_1_def memory_1_def node_1_def
        clinvar_demo_def str_int_1 store_1_def empty_store_def contribution_def
        variant_annotation_of_def objects_get_def variant_1_def Let_def)

theorem merge_metadata_frame_witness:
  "cells memory_1 (node_metadata parent_1)
     = JObj [(''factories'', JObj [(''2'', JObj [(''variant_annotations'', JList [JObj []])])])]
   \<and> contribution no_aliases clinvar_demo (node_variant node_1) store_1
     = Inr (JObj [(''variant_annotations'', JList [JObj []])])
   \<and> (\<exists>n1 mem1 st1 doc1 fs1.
        merge_metadata no_aliases clinvar_demo node_1 parent_1 memory_1 store_1 = Inr (n1, mem1, st1)
      \<and> cells mem1 (node_metadata n1) = JObj doc1
      \<and> map_of doc1 ''factories'' = Some (JObj fs1)
      \<and> map_of fs1 ''1'' = Some (JObj [(''variant_annotations'', JList [JObj []])])
      \<and> AList.delete ''1'' fs1 = [(''2'', JObj [(''variant_annotations'', JList [JObj []])])])"
proof -
  have h1: "cells memory_1 (node_metadata parent_1)
     = JObj [(''factories'', JObj [(''2'', JObj [(''variant_annotations'', JList [JObj []])])])]"
    by (simp add: memory_1_def parent_1_def)
  have h2: "map_of [(''factories'', JObj [(''2'', JObj [(''variant_annotations'', JList [JObj []])])])]
      ''factories'' = Some (JObj [(''2'', JObj [(''variant_annotations'', JList [JObj []])])])"
    by simp
  have h3: "contribution no_aliases clinvar_demo (node_variant node_1) store_1
     = Inr (JObj [(''variant_annotations'', JList [JObj []])])"
    by (simp add: contribution_def clinvar_demo_def variant_annotation_of_def objects_get_def
          store_1_def empty_store_def)
  from merge_metadata_frame[OF h1 h2 h3] obtain n1 mem1 st1 doc1 fs1 where
    r: "merge_metadata no_aliases clinvar_demo node_1 parent_1 memory_1 store_1 = Inr (n1, mem1, st1)"
    "cells mem1 (node_metadata n1) = JObj doc1"
    "map_of doc1 ''factories'' = Some (JObj fs1)"
    "map_of fs1 (str_int (pk clinvar_demo)) = Some (JObj [(''variant_annotations'', JList [JObj []])])"
    "AList.delete (str_int (pk clinvar_demo)) fs1
       = AList.delete (str_int (pk clinvar_demo)) [(''2'', JObj [(''variant_annotations'', JList [JObj []])])]"
    by blast
  have k: "str_int (pk clinvar_demo) = ''1''" by (simp add: clinvar_demo_def str_int_1)
  from r(4) have r4: "map_of fs1 ''1'' = Some (JObj [(''variant_annotations'', JList [JObj []])])"
    by (simp add: k)
  from r(5) have r5: "AList.delete ''1'' fs1 = [(''2'', JObj [(''variant_annotations'', JList [JObj []])])]"
    by (simp add: k)
  from h1 h3 r(1,2,3) r4 r5 show ?thesis by blast
qed

section \<open>The gene generator\<close>

declare batches_of.simps [simp del]

lemma next_gene_pending:
  "next_gene M rows lg = Inr (x, g1) \<Longrightarrow>
     (case x of None \<Rightarrow> pending g1 = [] | Some y \<Rightarrow> length (pending g1) < length rows)"
proof (induction rows arbitrary: lg)
  case Nil
  then show ?case by auto
next
  case (Cons r rs)
  show ?case
  proof (cases "gene_reader_row M r")
    case (Inl e)
    with Cons.prems show ?thesis by simp
  next
    case (Inr y)
    show ?thesis
    proof (cases y)
      case (Inl report)
      with Inr Cons.prems have "next_gene M rs (lg @ [report]) = Inr (x, g1)" by simp
      from Cons.IH[OF this] show ?thesis by (auto split: option.splits)
    next
      case (Inr g)
      with \<open>gene_reader_row M r = Inr y\<close> Cons.prems show ?thesis by auto
    qed
  qed
qed

lemma take_genes_pending:
  "take_genes M n g = Inr (xs, g1) \<Longrightarrow>
     length (pending g1) + length xs \<le> length (pending g) \<and> length xs \<le> n"
proof (induction n arbitrary: g xs g1)
  case 0
  then show ?case by simp
next
  case (Suc n)
  show ?case
  proof (cases "next_gene M (pending g) (logged g)")
    case (Inl e)
    with Suc.prems show ?thesis by simp
  next
    case (Inr p)
    obtain x g2 where p: "p = (x, g2)" by (cases p)
    note nx = next_gene_pending[OF Inr[unfolded p]]
    show ?thesis
    proof (cases x)
      case None
      with Inr p Suc.prems nx show ?thesis by auto
    next
      case (Some y)
      show ?thesis
      proof (cases "take_genes M n g2")
        case (Inl e)
        with Inr p Some Suc.prems show ?thesis by simp
      next
        case (Inr q)
        obtain ys g3 where q: "q = (ys, g3)" by (cases q)
        from Suc.IH[OF Inr[unfolded q]] have "length (pending g3) + length ys \<le> length (pending g2)"
          "length ys \<le> n" by simp_all
        moreover from \<open>next_gene M (pending g) (logged g) = Inr p\<close> p Some Inr q Suc.prems
        have "xs = y # ys" "g1 = g3" by simp_all
        moreover from nx Some have "length (pending g2) < length (pending g)" by simp
        ultimately show ?thesis by simp
      qed
    qed
  qed
qed

lemma load_genes_loop_returns:
  "\<exists>out. load_genes_loop M self batch_size g st = Some out
      \<and> length (statements (loaded_store out)) \<le> length (statements st) + length (pending g)"
proof (induction "length (pending g)" arbitrary: g st rule: less_induct)
  case less
  show ?case
  proof (cases "islice M batch_size g")
    case (Inl e)
    then show ?thesis
      by (subst load_genes_loop.simps) (simp add: loaded_store_def)
  next
    case (Inr p)
    obtain batch g1 where p: "p = (batch, g1)" by (cases p)
    show ?thesis
    proof (cases "batch = []")
      case True
      with Inr p show ?thesis
        by (subst load_genes_loop.simps) (simp add: loaded_store_def)
    next
      case False
      from Inr p have "take_genes M (nat batch_size) g = Inr (batch, g1)"
        by (simp add: islice_def split: if_splits)
      from take_genes_pending[OF this] False have lt: "length (pending g1) < length (pending g)"
        by (cases batch) auto
      from less[OF lt, of "load_genes_by_batch self batch st"] obtain out where
        out: "load_genes_loop M self batch_size g1 (load_genes_by_batch self batch st) = Some out"
        and n: "length (statements (loaded_store out))
             \<le> length (statements (load_genes_by_batch self batch st)) + length (pending g1)"
        by blast
      have "load_genes_loop M self batch_size g st = Some out"
        using Inr p False out by (subst load_genes_loop.simps) simp
      moreover have "length (statements (load_genes_by_batch self batch st)) = Suc (length (statements st))"
        by (simp add: load_genes_by_batch_def Let_def)
      ultimately show ?thesis using n lt by auto
    qed
  qed
qed

lemma get_genes_accepted:
  "\<forall>r \<in> set rows. \<exists>y. gene_reader_row M r = Inr y \<Longrightarrow>
     get_genes M rows lg
       = Inr (List.map_filter (accepted M) rows, lg @ List.map_filter (rejected M) rows)"
proof (induction rows arbitrary: lg)
  case Nil
  show ?case by (simp add: List.map_filter_simps)
next
  case (Cons r rs)
  from Cons.prems obtain y where y: "gene_reader_row M r = Inr y" by auto
  from Cons.prems have rest: "\<forall>r \<in> set rs. \<exists>y. gene_reader_row M r = Inr y" by simp
  show ?case
  proof (cases y)
    case (Inl report)
    with y Cons.IH[OF rest, of "lg @ [report]"] show ?thesis
      by (simp add: List.map_filter_simps accepted_def rejected_def)
  next
    case (Inr g)
    with y Cons.IH[OF rest, of lg] show ?thesis
      by (simp add: List.map_filter_simps accepted_def rejected_def)
  qed
qed

lemma next_gene_get_genes:
  "get_genes M rows lg = Inr (gs, lg1) \<Longrightarrow>
     (case gs of
        [] \<Rightarrow> next_gene M rows lg = Inr (None, \<lparr>pending = [], logged = lg1\<rparr>)
      | x # xs \<Rightarrow> (\<exists>g1. next_gene M rows lg = Inr (Some x, g1)
                     \<and> get_genes M (pending g1) (logged g1) = Inr (xs, lg1)))"
proof (induction rows arbitrary: lg gs)
  case Nil
  then show ?case by auto
next
  case (Cons r rs)
  show ?case
  proof (cases "gene_reader_row M r")
    case (Inl e)
    with Cons.prems show ?thesis by simp
  next
    case (Inr y)
    show ?thesis
    proof (cases y)
      case (Inl report)
      with Inr Cons.prems have "get_genes M rs (lg @ [report]) = Inr (gs, lg1)" by simp
      from Cons.IH[OF this] Inr Inl show ?thesis by (simp split: list.splits)
    next
      case g: (Inr g)
      show ?thesis
      proof (cases "get_genes M rs lg")
        case (Inl e)
        with Inr g Cons.prems show ?thesis by simp
      next
        case rest: (Inr q)
        obtain xs l where q: "q = (xs, l)" by (cases q)
        with Inr g rest Cons.prems have "gs = g # xs" "l = lg1" by simp_all
        with Inr g rest q show ?thesis by simp
      qed
    qed
  qed
qed

lemma take_genes_get_genes:
  "get_genes M (pending g) (logged g) = Inr (gs, lg1) \<Longrightarrow>
     \<exists>g1. take_genes M n g = Inr (take n gs, g1)
       \<and> get_genes M (pending g1) (logged g1) = Inr (drop n gs, lg1)
       \<and> (0 < n \<and> gs = [] \<longrightarrow> g1 = \<lparr>pending = [], logged = lg1\<rparr>)"
proof (induction n arbitrary: g gs)
  case 0
  then show ?case by simp
next
  case (Suc n)
  note nx = next_gene_get_genes[OF Suc.prems]
  show ?case
  proof (cases gs)
    case Nil
    with nx show ?thesis by simp
  next
    case (Cons x xs)
    with nx obtain g1 where g1: "next_gene M (pending g) (logged g) = Inr (Some x, g1)"
      "get_genes M (pending g1) (logged g1) = Inr (xs, lg1)" by auto
    from Suc.IH[OF g1(2)] obtain g2 where
      "take_genes M n g1 = Inr (take n xs, g2)"
      "get_genes M (pending g2) (logged g2) = Inr (drop n xs, lg1)" by blast
    with g1(1) Cons show ?thesis by simp
  qed
qed

lemma load_genes_loop_batches:
  assumes "1 \<le> batch_size" "batch_size \<le> maxsize"
  shows "get_genes M (pending g) (logged g) = Inr (gs, lg1) \<Longrightarrow>
     load_genes_loop M self batch_size g st
       = Some (Inr (\<lparr>pending = [], logged = lg1\<rparr>,
                    fold (load_genes_by_batch self) (batches_of (nat batch_size) gs) st))"
proof (induction "length gs" arbitrary: gs g st rule: less_induct)
  case less
  define n where "n = nat batch_size"
  have n: "0 < n" using assms(1) by (simp add: n_def)
  from take_genes_get_genes[OF less.prems, of n] obtain g1 where
    tk: "take_genes M n g = Inr (take n gs, g1)"
    and rest: "get_genes M (pending g1) (logged g1) = Inr (drop n gs, lg1)"
    and fin: "0 < n \<and> gs = [] \<longrightarrow> g1 = \<lparr>pending = [], logged = lg1\<rparr>"
    by blast
  have isl: "islice M batch_size g = Inr (take n gs, g1)"
    using tk assms by (simp add: islice_def n_def)
  show ?case
  proof (cases "gs = []")
    case True
    with fin n have "g1 = \<lparr>pending = [], logged = lg1\<rparr>" by simp
    moreover have "batches_of n gs = []"
      using True by (subst batches_of.simps) simp_all
    ultimately show ?thesis
      using isl True by (subst load_genes_loop.simps) (simp add: n_def)
  next
    case False
    with n have ne: "take n gs \<noteq> []" by (cases gs) auto
    from False n have "length (drop n gs) < length gs" by simp
    from less.hyps[OF this rest, of "load_genes_by_batch self (take n gs) st"]
    have "load_genes_loop M self batch_size g1 (load_genes_by_batch self (take n gs) st)
       = Some (Inr (\<lparr>pending = [], logged = lg1\<rparr>,
            fold (load_genes_by_batch self) (batches_of n (drop n gs))
              (load_genes_by_batch self (take n gs) st)))"
      by (simp add: n_def)
    moreover have "batches_of n gs = take n gs # batches_of n (drop n gs)"
      using False n by (subst batches_of.simps) simp
    ultimately show ?thesis
      using isl ne by (subst load_genes_loop.simps) (simp add: n_def)
  qed
qed

lemma batches_of_Nil: "n = 0 \<or> xs = [] \<Longrightarrow> batches_of n xs = []"
  by (subst batches_of.simps) simp

lemma batches_of_Cons:
  "0 < n \<Longrightarrow> xs \<noteq> [] \<Longrightarrow> batches_of n xs = take n xs # batches_of n (drop n xs)"
  by (subst batches_of.simps) simp

lemma concat_batches_of: "0 < n \<Longrightarrow> concat (batches_of n xs) = xs"
proof (induction n xs rule: batches_of.induct)
  case (1 n xs)
  show ?case
  proof (cases "xs = []")
    case True
    then show ?thesis by (simp add: batches_of_Nil)
  next
    case False
    with 1 have "concat (batches_of n (drop n xs)) = drop n xs" by simp
    with batches_of_Cons[OF "1.prems" False] show ?thesis by simp
  qed
qed

lemma length_batches_of:
  "\<forall>l \<in> set (map length (batches_of n xs)). 0 < l \<and> l \<le> n"
proof (induction n xs rule: batches_of.induct)
  case (1 n xs)
  show ?case
  proof (cases "n = 0 \<or> xs = []")
    case True
    then show ?thesis by (simp add: batches_of_Nil)
  next
    case False
    from 1[OF False] have ih: "\<forall>l \<in> set (map length (batches_of n (drop n xs))). 0 < l \<and> l \<le> n" .
    from False have eq: "batches_of n xs = take n xs # batches_of n (drop n xs)"
      by (simp add: batches_of_Cons)
    from False have "0 < length (take n xs) \<and> length (take n xs) \<le> n" by (cases xs) auto
    with ih show ?thesis unfolding eq by simp
  qed
qed

lemma full_batches_of:
  "\<forall>l \<in> set (butlast (map length (batches_of n xs))). l = n"
proof (induction n xs rule: batches_of.induct)
  case (1 n xs)
  show ?case
  proof (cases "n = 0 \<or> xs = []")
    case True
    then show ?thesis by (simp add: batches_of_Nil)
  next
    case False
    from 1[OF False] have ih: "\<forall>l \<in> set (butlast (map length (batches_of n (drop n xs)))). l = n" .
    from False have eq: "batches_of n xs = take n xs # batches_of n (drop n xs)"
      by (simp add: batches_of_Cons)
    show ?thesis
    proof (cases "drop n xs = []")
      case True
      then have "batches_of n (drop n xs) = []" by (simp add: batches_of_Nil)
      then show ?thesis unfolding eq by simp
    next
      case ne: False
      then have "n \<le> length xs" by simp
      then have len: "length (take n xs) = n" by simp
      from ne False have "batches_of n (drop n xs) \<noteq> []"
        by (simp add: batches_of_Cons[of n "drop n xs"])
      with ih len show ?thesis unfolding eq by simp
    qed
  qed
qed

lemma gene_rows_payload:
  "map row_payload (gene_rows self i b) = map (model_payload self) b"
  by (induction b arbitrary: i) (simp_all add: row_payload_def model_payload_def)

lemma fold_load_genes_by_batch:
  "\<exists>rowss. genes (fold (load_genes_by_batch self) bl st) = genes st @ concat rowss
      \<and> statements (fold (load_genes_by_batch self) bl st) = statements st @ rowss
      \<and> map (map row_payload) rowss = map (map (model_payload self)) bl
      \<and> regions (fold (load_genes_by_batch self) bl st) = regions st
      \<and> variants (fold (load_genes_by_batch self) bl st) = variants st
      \<and> variant_annotations (fold (load_genes_by_batch self) bl st) = variant_annotations st
      \<and> node_rows (fold (load_genes_by_batch self) bl st) = node_rows st"
proof (induction bl arbitrary: st)
  case Nil
  show ?case by simp
next
  case (Cons b bl)
  define rows where "rows = gene_rows self (new_id (map gene_id (genes st))) b"
  define st1 where "st1 = load_genes_by_batch self b st"
  have st1: "genes st1 = genes st @ rows" "statements st1 = statements st @ [rows]"
    "regions st1 = regions st" "variants st1 = variants st"
    "variant_annotations st1 = variant_annotations st" "node_rows st1 = node_rows st"
    by (simp_all add: st1_def load_genes_by_batch_def rows_def Let_def)
  from Cons.IH[of st1] obtain rowss where
    r: "genes (fold (load_genes_by_batch self) bl st1) = genes st1 @ concat rowss"
    "statements (fold (load_genes_by_batch self) bl st1) = statements st1 @ rowss"
    "map (map row_payload) rowss = map (map (model_payload self)) bl"
    "regions (fold (load_genes_by_batch self) bl st1) = regions st1"
    "variants (fold (load_genes_by_batch self) bl st1) = variants st1"
    "variant_annotations (fold (load_genes_by_batch self) bl st1) = variant_annotations st1"
    "node_rows (fold (load_genes_by_batch self) bl st1) = node_rows st1"
    by blast
  have "map row_payload rows = map (model_payload self) b"
    by (simp add: rows_def gene_rows_payload)
  with r st1 show ?case
    by (intro exI[of _ "rows # rowss"]) (simp add: st1_def)
qed

section \<open>The batch loop terminates\<close>

text \<open>
  C10. For a finite stream and a batch size of at least one (or the default),
  \<open>load_genes\<close> returns or raises: the loop is left. Each turn that inserts a batch has
  taken at least one row from the generator, so the number of \<open>bulk_create\<close> calls is
  at most the number of rows.
\<close>

theorem load_genes_terminates:
  assumes "case batch_size of None \<Rightarrow> True | Some b \<Rightarrow> 1 \<le> b"
  shows "\<exists>out. load_genes M self batch_size rows st = Some out
      \<and> length (statements (loaded_store out)) \<le> length (statements st) + length rows"
proof -
  from load_genes_loop_returns[of M self "case batch_size of None \<Rightarrow> 100 | Some b \<Rightarrow> b"
      "\<lparr>pending = rows, logged = []\<rparr>" "delete_genes self st"]
  show ?thesis by (simp add: load_genes_def delete_genes_def)
qed

theorem load_genes_terminates_witness:
  "(case Some 2 of None \<Rightarrow> True | Some b \<Rightarrow> (1::int) \<le> b)
   \<and> (\<exists>out. load_genes accept_all constraint_demo (Some 2)
               [row_of (Some ''A''), row_of None, row_of (Some ''B''), row_of (Some ''C'')]
               empty_store = Some out
         \<and> length (statements (loaded_store out)) \<le> 4)"
proof -
  have h: "case Some 2 of None \<Rightarrow> True | Some b \<Rightarrow> (1::int) \<le> b" by simp
  from load_genes_terminates[OF h, of accept_all constraint_demo
      "[row_of (Some ''A''), row_of None, row_of (Some ''B''), row_of (Some ''C'')]" empty_store]
  obtain out where out: "load_genes accept_all constraint_demo (Some 2)
               [row_of (Some ''A''), row_of None, row_of (Some ''B''), row_of (Some ''C'')]
               empty_store = Some out"
    and n: "length (statements (loaded_store out)) \<le> length (statements empty_store)
         + length [row_of (Some ''A''), row_of None, row_of (Some ''B''), row_of (Some ''C'')]"
    by blast
  have "length (statements empty_store)
         + length [row_of (Some ''A''), row_of None, row_of (Some ''B''), row_of (Some ''C'')] = 4"
    by (simp add: empty_store_def)
  with n have "length (statements (loaded_store out)) \<le> 4" by simp
  with h out show ?thesis by blast
qed

section \<open>Rows that fail validation\<close>

text \<open>
  C7, as the code has it. In \<open>get_genes\<close>, when no row makes the generator raise
  outside its \<open>try\<close> (every row has the four columns and passes the attributes model,
  and the gene model raises nothing but \<open>ValidationError\<close>), the rows whose gene model
  fails are logged, in order, and skipped, and the genes yielded are exactly those of
  the rows whose gene model succeeds, in stream order. In the positional loader a
  record whose model raises ends the work unit at once, with the store as it was.
\<close>

theorem get_genes_skips_invalid:
  assumes "\<forall>r \<in> set rows. \<exists>a. build_model_args M r = Inr a
             \<and> (\<forall>e. gene_model M a = Inl e \<longrightarrow> (\<exists>m. e = ValidationError m))"
  shows "get_genes M rows []
       = Inr (List.map_filter (accepted M) rows, List.map_filter (rejected M) rows)
   \<and> (\<forall>r g. accepted M r = Some g \<longleftrightarrow>
         (\<exists>a. build_model_args M r = Inr a \<and> gene_model M a = Inr g))
   \<and> (\<forall>r m. rejected M r = Some m \<longleftrightarrow>
         (\<exists>a. build_model_args M r = Inr a \<and> gene_model M a = Inl (ValidationError m)))
   \<and> (variant_model v = Inl x \<longrightarrow>
         load_variant_records variant_model unique_fv self region_obj (v # rest) st = Inl (x, st))"
proof (intro conjI allI impI)
  have "\<forall>r \<in> set rows. \<exists>y. gene_reader_row M r = Inr y"
  proof
    fix r
    assume "r \<in> set rows"
    with assms obtain a where a: "build_model_args M r = Inr a"
      "\<forall>e. gene_model M a = Inl e \<longrightarrow> (\<exists>m. e = ValidationError m)" by blast
    show "\<exists>y. gene_reader_row M r = Inr y"
    proof (cases "gene_model M a")
      case (Inl e)
      with a(2) obtain m where "e = ValidationError m" by blast
      with a(1) Inl show ?thesis by (simp add: gene_reader_row_def)
    next
      case (Inr g)
      with a(1) show ?thesis by (simp add: gene_reader_row_def)
    qed
  qed
  from get_genes_accepted[OF this, of "[]"]
  show "get_genes M rows []
       = Inr (List.map_filter (accepted M) rows, List.map_filter (rejected M) rows)"
    by simp
next
  fix r g
  show "accepted M r = Some g \<longleftrightarrow>
         (\<exists>a. build_model_args M r = Inr a \<and> gene_model M a = Inr g)"
    by (auto simp: accepted_def gene_reader_row_def split: sum.splits error.splits)
next
  fix r m
  show "rejected M r = Some m \<longleftrightarrow>
         (\<exists>a. build_model_args M r = Inr a \<and> gene_model M a = Inl (ValidationError m))"
    by (auto simp: rejected_def gene_reader_row_def split: sum.splits error.splits)
next
  assume "variant_model v = Inl x"
  then show "load_variant_records variant_model unique_fv self region_obj (v # rest) st = Inl (x, st)"
    by simp
qed

lemma build_model_args_row_of:
  "build_model_args accept_all (row_of g)
     = Inr \<lparr>arg_symbol = g, arg_name = g, arg_gene_type = Some ''protein_coding'',
            arg_aliases = [g, Some ''protein_coding'', Some ''100-200''],
            arg_attributes = JObj []\<rparr>"
  by (simp add: build_model_args_def row_of_def row_get_def accept_all_def py_str_def)

lemma gene_model_accept_all:
  "gene_model accept_all a = (case arg_name a of
      None \<Rightarrow> Inl (ValidationError ''name'')
    | Some n \<Rightarrow> Inr \<lparr>gm_name = n, gm_symbol = n, gm_gene_type = py_str (arg_gene_type a),
                     gm_attributes = arg_attributes a\<rparr>)"
  by (simp add: accept_all_def)

lemma accepted_row_of:
  "accepted accept_all (row_of g) = (case g of
      None \<Rightarrow> None
    | Some n \<Rightarrow> Some \<lparr>gm_name = n, gm_symbol = n, gm_gene_type = ''protein_coding'',
                      gm_attributes = JObj []\<rparr>)"
  by (simp add: accepted_def gene_reader_row_def build_model_args_row_of gene_model_accept_all
        py_str_def split: option.splits)

lemma rejected_row_of:
  "rejected accept_all (row_of g) = (case g of None \<Rightarrow> Some ''name'' | Some n \<Rightarrow> None)"
  by (simp add: rejected_def gene_reader_row_def build_model_args_row_of gene_model_accept_all
        split: option.splits)

lemma accept_all_errors: "gene_model accept_all a = Inl e \<Longrightarrow> \<exists>m. e = ValidationError m"
  by (auto simp: accept_all_def split: option.splits)

theorem get_genes_skips_invalid_witness:
  "get_genes accept_all [row_of (Some ''A''), row_of None, row_of (Some ''B'')] []
     = Inr ([\<lparr>gm_name = ''A'', gm_symbol = ''A'', gm_gene_type = ''protein_coding'',
               gm_attributes = JObj []\<rparr>,
             \<lparr>gm_name = ''B'', gm_symbol = ''B'', gm_gene_type = ''protein_coding'',
               gm_attributes = JObj []\<rparr>],
            [''name''])"
proof -
  have h: "\<forall>r \<in> set [row_of (Some ''A''), row_of None, row_of (Some ''B'')].
      \<exists>a. build_model_args accept_all r = Inr a
        \<and> (\<forall>e. gene_model accept_all a = Inl e \<longrightarrow> (\<exists>m. e = ValidationError m))"
  proof -
    have "\<And>g. \<exists>a. build_model_args accept_all (row_of g) = Inr a
        \<and> (\<forall>e. gene_model accept_all a = Inl e \<longrightarrow> (\<exists>m. e = ValidationError m))"
      using accept_all_errors build_model_args_row_of by blast
    then show ?thesis by simp
  qed
  have e: "List.map_filter (accepted accept_all) [row_of (Some ''A''), row_of None, row_of (Some ''B'')]
      = [\<lparr>gm_name = ''A'', gm_symbol = ''A'', gm_gene_type = ''protein_coding'',
               gm_attributes = JObj []\<rparr>,
             \<lparr>gm_name = ''B'', gm_symbol = ''B'', gm_gene_type = ''protein_coding'',
               gm_attributes = JObj []\<rparr>]"
    by (simp add: List.map_filter_simps accepted_row_of)
  have r: "List.map_filter (rejected accept_all) [row_of (Some ''A''), row_of None, row_of (Some ''B'')]
      = [''name'']"
    by (simp add: List.map_filter_simps rejected_row_of)
  from get_genes_skips_invalid[OF h, THEN conjunct1] show ?thesis unfolding e r .
qed

text \<open>
  A region load whose first record fails validation: the error leaves the work unit and
  the second record is never stored.
\<close>

theorem load_variants_for_region_aborts:
  "load_variants_for_region reject_benign False clinvar_demo ''1''
      [record_benign, record_pathogenic] store_1
     = Inl (ValidationError ''CLNSIG'', store_1)"
  by (simp add: load_variants_for_region_def clinvar_demo_def store_1_def empty_store_def
        region_1_def objects_get_def region_lookup_def reject_benign_def record_benign_def)

section \<open>The batch load replaces the factory's genes\<close>

text \<open>
  C5, as the code has it. For a batch size of at least one and at most \<open>sys.maxsize\<close>
  (or the default of 100) and a stream that \<open>get_genes\<close> reads to its end, \<open>load_genes\<close> returns; the gene table
  then holds the rows of the other factories followed by one row per valid record, in
  stream order; the rows were inserted by consecutive \<open>bulk_create\<close> calls, each of at
  least one and at most \<open>batch_size\<close> rows, all but the last of exactly \<open>batch_size\<close>;
  the other tables are unchanged. With no valid record the factory has no gene row
  left.
\<close>

theorem load_genes_replaces:
  assumes "case batch_size of None \<Rightarrow> True | Some b \<Rightarrow> 1 \<le> b \<and> b \<le> maxsize"
    and "get_genes M rows [] = Inr (gs, lg)"
  shows "\<exists>st1 batches.
      load_genes M self batch_size rows st = Some (Inr (\<lparr>pending = [], logged = lg\<rparr>, st1))
    \<and> genes st1 = filter (\<lambda>g. gene_factory g \<noteq> pk self) (genes st) @ concat batches
    \<and> statements st1 = statements st @ batches
    \<and> map row_payload (concat batches) = map (model_payload self) gs
    \<and> (\<forall>b \<in> set batches. 0 < length b
          \<and> int (length b) \<le> (case batch_size of None \<Rightarrow> 100 | Some b \<Rightarrow> b))
    \<and> (\<forall>b \<in> set (butlast batches).
          int (length b) = (case batch_size of None \<Rightarrow> 100 | Some b \<Rightarrow> b))
    \<and> regions st1 = regions st \<and> variants st1 = variants st
    \<and> variant_annotations st1 = variant_annotations st \<and> node_rows st1 = node_rows st
    \<and> (gs = [] \<longrightarrow> filter (\<lambda>g. gene_factory g = pk self) (genes st1) = [])"
proof -
  define bs where "bs = (case batch_size of None \<Rightarrow> 100 | Some b \<Rightarrow> b)"
  define n where "n = nat bs"
  define st0 where "st0 = delete_genes self st"
  define bl where "bl = batches_of n gs"
  define st1 where "st1 = fold (load_genes_by_batch self) bl st0"
  have bs: "1 \<le> bs" using assms(1) by (simp add: bs_def split: option.splits)
  have mx: "bs \<le> maxsize"
    using assms(1) by (simp add: bs_def maxsize_def split: option.splits)
  from bs have n: "0 < n" "int n = bs" by (simp_all add: n_def)
  have g0: "get_genes M (pending \<lparr>pending = rows, logged = []\<rparr>)
      (logged \<lparr>pending = rows, logged = []\<rparr>) = Inr (gs, lg)"
    using assms(2) by simp
  from load_genes_loop_batches[OF bs mx g0, of self st0]
  have run: "load_genes M self batch_size rows st = Some (Inr (\<lparr>pending = [], logged = lg\<rparr>, st1))"
    by (simp add: load_genes_def bs_def st0_def st1_def bl_def n_def)
  from fold_load_genes_by_batch[of self bl st0] obtain rowss where
    r: "genes st1 = genes st0 @ concat rowss"
    "statements st1 = statements st0 @ rowss"
    "map (map row_payload) rowss = map (map (model_payload self)) bl"
    "regions st1 = regions st0" "variants st1 = variants st0"
    "variant_annotations st1 = variant_annotations st0" "node_rows st1 = node_rows st0"
    unfolding st1_def by blast
  have st0: "genes st0 = filter (\<lambda>g. gene_factory g \<noteq> pk self) (genes st)"
    "statements st0 = statements st" "regions st0 = regions st" "variants st0 = variants st"
    "variant_annotations st0 = variant_annotations st" "node_rows st0 = node_rows st"
    by (simp_all add: st0_def delete_genes_def)
  have "map row_payload (concat rowss) = concat (map (map row_payload) rowss)"
    by (simp add: map_concat)
  also have "\<dots> = concat (map (map (model_payload self)) bl)" by (simp add: r(3))
  also have "\<dots> = map (model_payload self) (concat bl)" by (simp add: map_concat)
  also have "\<dots> = map (model_payload self) gs" by (simp add: bl_def concat_batches_of[OF n(1)])
  finally have pay: "map row_payload (concat rowss) = map (model_payload self) gs" .
  have "map length (map (map row_payload) rowss) = map length (map (map (model_payload self)) bl)"
    by (simp add: r(3))
  then have lens: "map length rowss = map length bl" by (simp add: o_def)
  have size: "\<forall>b \<in> set rowss. 0 < length b \<and> int (length b) \<le> bs"
  proof
    fix b
    assume "b \<in> set rowss"
    then have "length b \<in> set (map length rowss)" by simp
    then have "length b \<in> set (map length (batches_of n gs))" by (simp add: lens bl_def)
    with length_batches_of[of n gs] have "0 < length b \<and> length b \<le> n" by blast
    with n(2) show "0 < length b \<and> int (length b) \<le> bs" by linarith
  qed
  have full: "\<forall>b \<in> set (butlast rowss). int (length b) = bs"
  proof
    fix b
    assume "b \<in> set (butlast rowss)"
    then have "length b \<in> set (map length (butlast rowss))" by simp
    then have "length b \<in> set (butlast (map length (batches_of n gs)))"
      by (simp add: map_butlast lens bl_def)
    with full_batches_of[of n gs] have "length b = n" by blast
    with n(2) show "int (length b) = bs" by simp
  qed
  have none: "gs = [] \<longrightarrow> filter (\<lambda>g. gene_factory g = pk self) (genes st1) = []"
  proof
    assume "gs = []"
    then have "bl = []" by (simp add: bl_def batches_of_Nil)
    then have "genes st1 = genes st0" by (simp add: st1_def)
    then show "filter (\<lambda>g. gene_factory g = pk self) (genes st1) = []"
      by (simp add: st0(1) filter_empty_conv)
  qed
  from run r st0 pay size full none show ?thesis
    unfolding bs_def by (intro exI[of _ st1] exI[of _ rowss]) simp
qed

text \<open>
  With a batch size of zero the first batch is empty and the loop is left at once: the
  factory's rows are deleted and the one valid record of the stream is not inserted.
\<close>

theorem load_genes_batch_size_zero:
  "load_genes accept_all constraint_demo (Some 0) [row_of (Some ''A'')] store_genes
     = Some (Inr (\<lparr>pending = [row_of (Some ''A'')], logged = []\<rparr>, empty_store))
   \<and> get_genes accept_all [row_of (Some ''A'')] []
     = Inr ([\<lparr>gm_name = ''A'', gm_symbol = ''A'', gm_gene_type = ''protein_coding'',
               gm_attributes = JObj []\<rparr>], [])"
proof
  show "load_genes accept_all constraint_demo (Some 0) [row_of (Some ''A'')] store_genes
     = Some (Inr (\<lparr>pending = [row_of (Some ''A'')], logged = []\<rparr>, empty_store))"
    unfolding load_genes_def
    by (subst load_genes_loop.simps)
       (simp add: islice_def maxsize_def delete_genes_def store_genes_def gene_100_200_def
          constraint_demo_def empty_store_def)
next
  show "get_genes accept_all [row_of (Some ''A'')] []
     = Inr ([\<lparr>gm_name = ''A'', gm_symbol = ''A'', gm_gene_type = ''protein_coding'',
               gm_attributes = JObj []\<rparr>], [])"
    by (simp add: gene_reader_row_def build_model_args_row_of gene_model_accept_all py_str_def)
qed

text \<open>
  Four rows, the second of them rejected by the gene model, loaded in batches of two
  into a store that holds a gene of the factory: the old row is gone, and the three
  valid records are inserted by two \<open>bulk_create\<close> calls, of two rows and of one.
\<close>

theorem load_genes_replaces_witness:
  "(case Some 2 of None \<Rightarrow> True | Some b \<Rightarrow> 1 \<le> b \<and> b \<le> maxsize)
   \<and> get_genes accept_all
        [row_of (Some ''A''), row_of None, row_of (Some ''B''), row_of (Some ''C'')] []
       = Inr ([\<lparr>gm_name = ''A'', gm_symbol = ''A'', gm_gene_type = ''protein_coding'',
                 gm_attributes = JObj []\<rparr>,
               \<lparr>gm_name = ''B'', gm_symbol = ''B'', gm_gene_type = ''protein_coding'',
                 gm_attributes = JObj []\<rparr>,
               \<lparr>gm_name = ''C'', gm_symbol = ''C'', gm_gene_type = ''protein_coding'',
                 gm_attributes = JObj []\<rparr>], [''name''])
   \<and> (\<exists>st1 batches.
        load_genes accept_all constraint_demo (Some 2)
          [row_of (Some ''A''), row_of None, row_of (Some ''B''), row_of (Some ''C'')] store_genes
          = Some (Inr (\<lparr>pending = [], logged = [''name'']\<rparr>, st1))
      \<and> genes st1 = concat batches
      \<and> statements st1 = batches
      \<and> map length batches = [2, 1]
      \<and> map row_payload (concat batches)
          = [(3, ''A'', ''A'', ''protein_coding'', JObj []),
             (3, ''B'', ''B'', ''protein_coding'', JObj []),
             (3, ''C'', ''C'', ''protein_coding'', JObj [])])"
proof -
  let ?rows = "[row_of (Some ''A''), row_of None, row_of (Some ''B''), row_of (Some ''C'')]"
  let ?gs = "[\<lparr>gm_name = ''A'', gm_symbol = ''A'', gm_gene_type = ''protein_coding'',
                 gm_attributes = JObj []\<rparr>,
               \<lparr>gm_name = ''B'', gm_symbol = ''B'', gm_gene_type = ''protein_coding'',
                 gm_attributes = JObj []\<rparr>,
               \<lparr>gm_name = ''C'', gm_symbol = ''C'', gm_gene_type = ''protein_coding'',
                 gm_attributes = JObj []\<rparr>]"
  have h1: "case Some 2 of None \<Rightarrow> True | Some b \<Rightarrow> 1 \<le> b \<and> b \<le> maxsize"
    by (simp add: maxsize_def)
  have h2: "get_genes accept_all ?rows [] = Inr (?gs, [''name''])"
    by (simp add: gene_reader_row_def build_model_args_row_of gene_model_accept_all py_str_def)
  from load_genes_replaces[OF h1 h2, of constraint_demo store_genes, unfolded option.case]
  obtain st1 batches where
    run: "load_genes accept_all constraint_demo (Some 2) ?rows store_genes
          = Some (Inr (\<lparr>pending = [], logged = [''name'']\<rparr>, st1))"
    and g: "genes st1 = filter (\<lambda>g. gene_factory g \<noteq> pk constraint_demo) (genes store_genes)
          @ concat batches"
    and s: "statements st1 = statements store_genes @ batches"
    and p: "map row_payload (concat batches) = map (model_payload constraint_demo) ?gs"
    and sz: "\<forall>b \<in> set batches. 0 < length b \<and> int (length b) \<le> 2"
    and fl: "\<forall>b \<in> set (butlast batches). int (length b) = 2"
    by blast
  have g1: "genes st1 = concat batches"
    using g by (simp add: store_genes_def gene_100_200_def constraint_demo_def)
  have s1: "statements st1 = batches"
    using s by (simp add: store_genes_def empty_store_def)
  have p1: "map row_payload (concat batches)
          = [(3, ''A'', ''A'', ''protein_coding'', JObj []),
             (3, ''B'', ''B'', ''protein_coding'', JObj []),
             (3, ''C'', ''C'', ''protein_coding'', JObj [])]"
    using p by (simp add: model_payload_def constraint_demo_def)
  from p1 have total: "length (concat batches) = 3"
    using length_map[of row_payload "concat batches"] by simp
  have lens: "map length batches = [2, 1]"
  proof (cases batches)
    case Nil
    with total show ?thesis by simp
  next
    case (Cons b1 r1)
    show ?thesis
    proof (cases r1)
      case Nil
      with Cons total have "length b1 = 3" by simp
      with sz Cons show ?thesis by simp
    next
      case c2: (Cons b2 r2)
      with Cons fl have l1: "length b1 = 2" by simp
      show ?thesis
      proof (cases r2)
        case Nil
        with Cons c2 total l1 show ?thesis by simp
      next
        case c3: (Cons b3 r3)
        with Cons c2 fl have "length b2 = 2" by simp
        with Cons c2 l1 total show ?thesis by simp
      qed
    qed
  qed
  show ?thesis
    by (intro conjI exI[of _ st1] exI[of _ batches] h1 h2 run g1 s1 lens p1)
qed

section \<open>The order of the pipeline's stages\<close>
















end
